theory Spec2Isabelle
  imports Complex_Main "HOL-Library.Word" "HOL-Library.Monad_Syntax"
begin

section \<open>The multi-level lattice environment (environment\_navxythetamlevlat.cpp)\<close>

text \<open>
  The class \<open>EnvironmentNAVXYTHETAMLEVLAT\<close> extends the single-level lattice environment
  by a number of additional levels, each with a cost grid of its own and a footprint
  polygon. The embedding follows the C++ source function by function.

  A call has the type \<open>'a option\<close>: \<open>None\<close> stands for a call without a defined
  result (a read or write outside an array, a dereferenced null pointer, an allocation
  of negative size); \<open>Some v\<close> is the value returned. Functions that change the object
  return the new object next to their result.

  The source is compiled with \<open>DEBUG\<close> off: the body of the \<open>#if DEBUG\<close> block of
  \<open>UpdateCostinAddLev\<close> is not a statement, so the debug-only level checks are not part
  of the program. The diagnostic counter \<open>checks\<close> is never read and is left out.
\<close>

subsection \<open>Data\<close>

type_synonym u8 = "8 word"

text \<open>\<open>sbpl_2Dcell_t\<close> (x, y), \<open>EnvNAVXYTHETALAT3Dcell_t\<close> (x, y, theta) and
  \<open>sbpl_2Dpt_t\<close> (x, y), as tuples.\<close>

type_synonym sbpl_2Dcell_t = "int \<times> int"
type_synonym EnvNAVXYTHETALAT3Dcell_t = "int \<times> int \<times> int"
type_synonym sbpl_2Dpt_t = "real \<times> real"

text \<open>The fields of an action that the functions below read. The structure is declared
  in a header of the base environment; \<open>cost\<close> holds a value of a 32-bit unsigned field.\<close>

record EnvNAVXYTHETALATAction_t =
  aind :: int
  starttheta :: int
  dX :: int
  dY :: int
  endtheta :: int
  cost :: int
  interm3DcellsV :: "EnvNAVXYTHETALAT3Dcell_t list"

record EnvNAVXYTHETAMLEVLATAddInfoAction_t =
  addinfo_dX :: int
  addinfo_dY :: int
  addinfo_starttheta :: int
  addinfo_endtheta :: int
  intersectingcellsV :: "sbpl_2Dcell_t list list"

text \<open>The configuration of the base environment, as far as it is read here. The macros
  \<open>INFINITECOST\<close> and \<open>NAVXYTHETALAT_THETADIRS\<close> are defined in headers of the base
  library and are taken as parameters of the configuration.\<close>

record EnvNAVXYTHETALATConfig_t =
  EnvWidth_c :: int
  EnvHeight_c :: int
  Grid2D :: "u8 list list"
  obsthresh :: u8
  cost_inscribed_thresh :: u8
  cost_possibly_circumscribed_thresh :: int
  actionwidth :: int
  ActionsV :: "EnvNAVXYTHETALATAction_t list list"
  INFINITECOST :: int
  NAVXYTHETALAT_THETADIRS :: int

text \<open>The object: the base configuration and the four members of the derived class.
  A pointer member is \<open>None\<close> when it is \<open>NULL\<close>.\<close>

record env =
  EnvNAVXYTHETALATCfg :: EnvNAVXYTHETALATConfig_t
  numofadditionalzlevs :: int
  AddLevelFootprintPolygonV :: "sbpl_2Dpt_t list list option"
  AdditionalInfoinActionsV :: "EnvNAVXYTHETAMLEVLATAddInfoAction_t list list option"
  AddLevelGrid2D :: "u8 list list list option"

abbreviation cfg :: "env \<Rightarrow> EnvNAVXYTHETALATConfig_t" where
  "cfg s \<equiv> EnvNAVXYTHETALATCfg s"

text \<open>The constructor: no additional levels, all pointers \<open>NULL\<close>.\<close>

definition EnvironmentNAVXYTHETAMLEVLAT :: "EnvNAVXYTHETALATConfig_t \<Rightarrow> env" where
  "EnvironmentNAVXYTHETAMLEVLAT c =
     \<lparr> EnvNAVXYTHETALATCfg = c, numofadditionalzlevs = 0,
       AddLevelFootprintPolygonV = None, AdditionalInfoinActionsV = None,
       AddLevelGrid2D = None \<rparr>"

subsection \<open>Arrays\<close>

text \<open>Reading and writing an array at an index of type \<open>int\<close>; outside the array the
  access has no defined result.\<close>

definition at_ix :: "'a list \<Rightarrow> int \<Rightarrow> 'a option" where
  "at_ix xs i = (if 0 \<le> i \<and> i < int (length xs) then Some (xs ! nat i) else None)"

definition put_ix :: "'a list \<Rightarrow> int \<Rightarrow> 'a \<Rightarrow> 'a list option" where
  "put_ix xs i v = (if 0 \<le> i \<and> i < int (length xs) then Some (xs[nat i := v]) else None)"

text \<open>\<open>g[lev][x][y]\<close> and \<open>g[lev][x][y] = v\<close> on a grid array.\<close>

definition at3 :: "u8 list list list \<Rightarrow> int \<Rightarrow> int \<Rightarrow> int \<Rightarrow> u8 option" where
  "at3 g lev x y = do { l \<leftarrow> at_ix g lev; col \<leftarrow> at_ix l x; at_ix col y }"

definition put3 :: "u8 list list list \<Rightarrow> int \<Rightarrow> int \<Rightarrow> int \<Rightarrow> u8 \<Rightarrow> u8 list list list option" where
  "put3 g lev x y v = do {
     l \<leftarrow> at_ix g lev;
     col \<leftarrow> at_ix l x;
     col' \<leftarrow> put_ix col y v;
     l' \<leftarrow> put_ix l x col';
     put_ix g lev l' }"

text \<open>\<open>AddLevelGrid2D[lev][x][y]\<close> and \<open>EnvNAVXYTHETALATCfg.Grid2D[x][y]\<close>.\<close>

definition AddLevelGrid2D_at :: "env \<Rightarrow> int \<Rightarrow> int \<Rightarrow> int \<Rightarrow> u8 option" where
  "AddLevelGrid2D_at s lev x y = do { g \<leftarrow> AddLevelGrid2D s; at3 g lev x y }"

definition Grid2D_at :: "env \<Rightarrow> int \<Rightarrow> int \<Rightarrow> u8 option" where
  "Grid2D_at s x y = do { col \<leftarrow> at_ix (Grid2D (cfg s)) x; at_ix col y }"

text \<open>The values of \<open>levelind\<close> in \<open>for (levelind = 0; levelind < numofadditionalzlevs; levelind++)\<close>.\<close>

definition levels :: "env \<Rightarrow> int list" where
  "levels s = map int [0..<nat (numofadditionalzlevs s)]"

definition in_bounds :: "env \<Rightarrow> int \<Rightarrow> int \<Rightarrow> bool" where
  "in_bounds s X Y \<longleftrightarrow>
     X \<ge> 0 \<and> X < EnvWidth_c (cfg s) \<and> Y \<ge> 0 \<and> Y < EnvHeight_c (cfg s)"

subsection \<open>Cell queries\<close>

text \<open>Modelled from the spec: \<open>EnvironmentNAVXYTHETALAT::IsValidCell\<close>, the validity
  query of the base environment, whose code is not in the sources. A cell of the base
  level is free when it lies within the grid and its base cost is below \<open>obsthresh\<close>.\<close>

definition base_IsValidCell :: "env \<Rightarrow> int \<Rightarrow> int \<Rightarrow> bool option" where
  "base_IsValidCell s X Y =
     (if in_bounds s X Y
      then do { c \<leftarrow> Grid2D_at s X Y; Some (c < obsthresh (cfg s)) }
      else Some False)"

text \<open>\<open>IsValidCell(X, Y)\<close>: the loop over the additional levels, then the function.\<close>

fun IsValidCell_levels :: "env \<Rightarrow> int \<Rightarrow> int \<Rightarrow> int list \<Rightarrow> bool option" where
  "IsValidCell_levels s X Y [] = Some True"
| "IsValidCell_levels s X Y (levelind # ls) = do {
     c \<leftarrow> AddLevelGrid2D_at s levelind X Y;
     if c \<ge> obsthresh (cfg s) then Some False else IsValidCell_levels s X Y ls }"

definition IsValidCell :: "env \<Rightarrow> int \<Rightarrow> int \<Rightarrow> bool option" where
  "IsValidCell s X Y = do {
     b \<leftarrow> base_IsValidCell s X Y;
     if \<not> b then Some False else IsValidCell_levels s X Y (levels s) }"

text \<open>\<open>IsValidCell(X, Y, levind)\<close>: the conjunction is evaluated from the left, the grid is
  read only when the five comparisons before it hold.\<close>

definition IsValidCell_lev :: "env \<Rightarrow> int \<Rightarrow> int \<Rightarrow> int \<Rightarrow> bool option" where
  "IsValidCell_lev s X Y levind =
     (if X \<ge> 0 \<and> X < EnvWidth_c (cfg s) \<and> Y \<ge> 0 \<and> Y < EnvHeight_c (cfg s)
         \<and> levind < numofadditionalzlevs s
      then do { c \<leftarrow> AddLevelGrid2D_at s levind X Y; Some (c < obsthresh (cfg s)) }
      else Some False)"

text \<open>\<open>GetMapCost(X, Y)\<close> and \<open>GetMapCost(X, Y, levind)\<close>.\<close>

fun GetMapCost_levels :: "env \<Rightarrow> int \<Rightarrow> int \<Rightarrow> u8 \<Rightarrow> int list \<Rightarrow> u8 option" where
  "GetMapCost_levels s X Y mapcost [] = Some mapcost"
| "GetMapCost_levels s X Y mapcost (levind # ls) = do {
     c \<leftarrow> AddLevelGrid2D_at s levind X Y;
     GetMapCost_levels s X Y (max mapcost c) ls }"

definition GetMapCost :: "env \<Rightarrow> int \<Rightarrow> int \<Rightarrow> u8 option" where
  "GetMapCost s X Y = do {
     mapcost \<leftarrow> Grid2D_at s X Y;
     GetMapCost_levels s X Y mapcost (levels s) }"

definition GetMapCost_lev :: "env \<Rightarrow> int \<Rightarrow> int \<Rightarrow> int \<Rightarrow> u8 option" where
  "GetMapCost_lev s X Y levind = AddLevelGrid2D_at s levind X Y"

subsection \<open>Action cost\<close>

text \<open>The loop that rejects a destination cell at or above \<open>cost_inscribed_thresh\<close> on
  some level; the result is \<open>True\<close> when the loop returns \<open>INFINITECOST\<close>.\<close>

fun dest_inscribed_levels :: "env \<Rightarrow> int \<Rightarrow> int \<Rightarrow> int list \<Rightarrow> bool option" where
  "dest_inscribed_levels s x y [] = Some False"
| "dest_inscribed_levels s x y (levelind # ls) = do {
     c \<leftarrow> AddLevelGrid2D_at s levelind x y;
     if c \<ge> cost_inscribed_thresh (cfg s) then Some True
     else dest_inscribed_levels s x y ls }"

text \<open>The loop over the intermediate cells of the action. The inner loop over the levels
  updates \<open>maxcellcost\<close> and \<open>maxcellcostateachlevel\<close>; the outer loop returns the value
  of \<open>i\<close> at its exit with both, so that \<open>i\<close> is below the number of cells exactly after
  a \<open>break\<close>.\<close>

fun interm_levels ::
  "env \<Rightarrow> int \<Rightarrow> int \<Rightarrow> int list \<Rightarrow> u8 \<times> u8 list \<Rightarrow> (u8 \<times> u8 list) option" where
  "interm_levels s x y [] acc = Some acc"
| "interm_levels s x y (levelind # ls) (maxcellcost, maxateachlevel) = do {
     c \<leftarrow> AddLevelGrid2D_at s levelind x y;
     old \<leftarrow> at_ix maxateachlevel levelind;
     each' \<leftarrow> put_ix maxateachlevel levelind (max old c);
     interm_levels s x y ls (max maxcellcost c, each') }"

fun interm_cells ::
  "env \<Rightarrow> int \<Rightarrow> int \<Rightarrow> EnvNAVXYTHETALAT3Dcell_t list \<Rightarrow> nat \<Rightarrow> u8 \<times> u8 list
     \<Rightarrow> (nat \<times> u8 \<times> u8 list) option" where
  "interm_cells s SourceX SourceY [] i (maxcellcost, maxateachlevel) =
     Some (i, maxcellcost, maxateachlevel)"
| "interm_cells s SourceX SourceY (interm3Dcell # cs) i (maxcellcost, maxateachlevel) =
     (let x = fst interm3Dcell + SourceX; y = fst (snd interm3Dcell) + SourceY in
      if x < 0 \<or> x \<ge> EnvWidth_c (cfg s) \<or> y < 0 \<or> y \<ge> EnvHeight_c (cfg s)
      then Some (i, obsthresh (cfg s), maxateachlevel)
      else do {
        (maxcellcost', each') \<leftarrow> interm_levels s x y (levels s) (maxcellcost, maxateachlevel);
        if maxcellcost' \<ge> cost_inscribed_thresh (cfg s)
        then Some (i, obsthresh (cfg s), each')
        else interm_cells s SourceX SourceY cs (Suc i) (maxcellcost', each') })"

text \<open>The footprint check: the loop over the swept cells of one level, and the loop over
  the levels, which goes on only while \<open>maxcellcost < obsthresh\<close>.\<close>

fun footprint_cells ::
  "env \<Rightarrow> int \<Rightarrow> int \<Rightarrow> int \<Rightarrow> sbpl_2Dcell_t list \<Rightarrow> u8 \<Rightarrow> u8 option" where
  "footprint_cells s SourceX SourceY levelind [] maxcellcost = Some maxcellcost"
| "footprint_cells s SourceX SourceY levelind (cell # cs) maxcellcost = do {
     v \<leftarrow> IsValidCell_lev s (fst cell + SourceX) (snd cell + SourceY) levelind;
     if \<not> v then Some (obsthresh (cfg s))
     else footprint_cells s SourceX SourceY levelind cs maxcellcost }"

definition intersectingcells_at ::
  "env \<Rightarrow> int \<Rightarrow> int \<Rightarrow> int \<Rightarrow> sbpl_2Dcell_t list option" where
  "intersectingcells_at s tind a levelind = do {
     tab \<leftarrow> AdditionalInfoinActionsV s;
     row \<leftarrow> at_ix tab tind;
     info \<leftarrow> at_ix row a;
     at_ix (intersectingcellsV info) levelind }"

fun footprint_levels ::
  "env \<Rightarrow> int \<Rightarrow> int \<Rightarrow> EnvNAVXYTHETALATAction_t \<Rightarrow> u8 list \<Rightarrow> int list \<Rightarrow> u8 \<Rightarrow> u8 option" where
  "footprint_levels s SourceX SourceY action maxateachlevel [] maxcellcost = Some maxcellcost"
| "footprint_levels s SourceX SourceY action maxateachlevel (levelind # ls) maxcellcost =
     (if \<not> maxcellcost < obsthresh (cfg s) then Some maxcellcost
      else do {
        polys \<leftarrow> AddLevelFootprintPolygonV s;
        poly \<leftarrow> at_ix polys levelind;
        m \<leftarrow> at_ix maxateachlevel levelind;
        if length poly > 1 \<and> uint m \<ge> cost_possibly_circumscribed_thresh (cfg s)
        then do {
          cells \<leftarrow> intersectingcells_at s (starttheta action) (aind action) levelind;
          maxcellcost' \<leftarrow> footprint_cells s SourceX SourceY levelind cells maxcellcost;
          footprint_levels s SourceX SourceY action maxateachlevel ls maxcellcost' }
        else footprint_levels s SourceX SourceY action maxateachlevel ls maxcellcost })"

text \<open>The product \<open>action->cost * ((int)maxcellcost + 1)\<close> is formed in 32 bits and
  returned as an \<open>int\<close>.\<close>

definition to_int32 :: "int \<Rightarrow> int" where
  "to_int32 z = (z + 2 ^ 31) mod 2 ^ 32 - 2 ^ 31"

definition new_array :: "int \<Rightarrow> 'a \<Rightarrow> 'a list option" where
  "new_array n v = (if n < 0 then None else Some (replicate (nat n) v))"

definition GetActionCostacrossAddLevels ::
  "env \<Rightarrow> int \<Rightarrow> int \<Rightarrow> int \<Rightarrow> EnvNAVXYTHETALATAction_t \<Rightarrow> int option" where
  "GetActionCostacrossAddLevels s SourceX SourceY SourceTheta action = do {
     v1 \<leftarrow> IsValidCell s SourceX SourceY;
     if \<not> v1 then Some (INFINITECOST (cfg s)) else do {
     v2 \<leftarrow> IsValidCell s (SourceX + dX action) (SourceY + dY action);
     if \<not> v2 then Some (INFINITECOST (cfg s)) else
     if numofadditionalzlevs s = 0 then Some 0 else do {
     ins \<leftarrow> dest_inscribed_levels s (SourceX + dX action) (SourceY + dY action) (levels s);
     if ins then Some (INFINITECOST (cfg s)) else do {
     each0 \<leftarrow> new_array (numofadditionalzlevs s) 0;
     (i, maxcellcost, each) \<leftarrow>
        interm_cells s SourceX SourceY (interm3DcellsV action) 0 (0, each0);
     maxcellcost' \<leftarrow> footprint_levels s SourceX SourceY action each (levels s) maxcellcost;
     if maxcellcost' \<ge> obsthresh (cfg s) then Some (INFINITECOST (cfg s))
     else Some (to_int32 (cost action * (uint maxcellcost' + 1))) } } } }"

text \<open>\<open>GetActionCost\<close>. The action cost of the base environment,
  \<open>EnvironmentNAVXYTHETALAT::GetActionCost\<close>, is a parameter.\<close>

definition GetActionCost ::
  "(int \<Rightarrow> int \<Rightarrow> int \<Rightarrow> EnvNAVXYTHETALATAction_t \<Rightarrow> int) \<Rightarrow>
   env \<Rightarrow> int \<Rightarrow> int \<Rightarrow> int \<Rightarrow> EnvNAVXYTHETALATAction_t \<Rightarrow> int option" where
  "GetActionCost base_GetActionCost s SourceX SourceY SourceTheta action = do {
     let basecost = base_GetActionCost SourceX SourceY SourceTheta action;
     addcost \<leftarrow> GetActionCostacrossAddLevels s SourceX SourceY SourceTheta action;
     Some (max basecost addcost) }"

subsection \<open>Setting up and filling the levels\<close>

text \<open>\<open>InitializeAdditionalLevels\<close>. The cells that the footprint of a level sweeps along an
  action are computed by \<open>CalculateFootprintForPose\<close> and \<open>RemoveSourceFootprint\<close>,
  geometric routines of the base library; \<open>sweep tind a poly\<close> stands for their result
  for heading \<open>tind\<close>, action \<open>a\<close> and polygon \<open>poly\<close>.\<close>

definition new_column :: "int \<Rightarrow> u8 list option" where
  "new_column h = new_array h 0"

definition new_level :: "int \<Rightarrow> int \<Rightarrow> u8 list list option" where
  "new_level w h = (if w < 0 then None else those (replicate (nat w) (new_column h)))"

definition new_grid :: "int \<Rightarrow> int \<Rightarrow> int \<Rightarrow> u8 list list list option" where
  "new_grid n w h = (if n < 0 then None else those (replicate (nat n) (new_level w h)))"

definition init_action ::
  "(int \<Rightarrow> int \<Rightarrow> sbpl_2Dpt_t list \<Rightarrow> sbpl_2Dcell_t list) \<Rightarrow> env \<Rightarrow> sbpl_2Dpt_t list list
     \<Rightarrow> int \<Rightarrow> int \<Rightarrow> EnvNAVXYTHETAMLEVLATAddInfoAction_t option" where
  "init_action sweep s polys tind a = do {
     row \<leftarrow> at_ix (ActionsV (cfg s)) tind;
     nav3daction \<leftarrow> at_ix row a;
     Some \<lparr> addinfo_dX = dX nav3daction, addinfo_dY = dY nav3daction,
            addinfo_starttheta = tind, addinfo_endtheta = endtheta nav3daction,
            intersectingcellsV = map (sweep tind a) polys \<rparr> }"

definition init_actions ::
  "(int \<Rightarrow> int \<Rightarrow> sbpl_2Dpt_t list \<Rightarrow> sbpl_2Dcell_t list) \<Rightarrow> env \<Rightarrow> sbpl_2Dpt_t list list
     \<Rightarrow> EnvNAVXYTHETAMLEVLATAddInfoAction_t list list option" where
  "init_actions sweep s polys =
     (if NAVXYTHETALAT_THETADIRS (cfg s) < 0 then None
      else those (map (\<lambda>tind.
             if actionwidth (cfg s) < 0 then None
             else those (map (init_action sweep s polys tind)
                          (map int [0..<nat (actionwidth (cfg s))])))
           (map int [0..<nat (NAVXYTHETALAT_THETADIRS (cfg s))])))"

definition InitializeAdditionalLevels ::
  "(int \<Rightarrow> int \<Rightarrow> sbpl_2Dpt_t list \<Rightarrow> sbpl_2Dcell_t list) \<Rightarrow> env \<Rightarrow> int \<Rightarrow> sbpl_2Dpt_t list list
     \<Rightarrow> (bool \<times> env) option" where
  "InitializeAdditionalLevels sweep s numofadditionalzlevs_in perimeterptsV =
     (if numofadditionalzlevs_in < 0 then None
      else do {
        polys \<leftarrow> those (map (at_ix perimeterptsV) (map int [0..<nat numofadditionalzlevs_in]));
        tab \<leftarrow> init_actions sweep s polys;
        g \<leftarrow> new_grid numofadditionalzlevs_in (EnvWidth_c (cfg s)) (EnvHeight_c (cfg s));
        Some (True, s\<lparr> numofadditionalzlevs := numofadditionalzlevs_in,
                        AddLevelFootprintPolygonV := Some polys,
                        AdditionalInfoinActionsV := Some tab,
                        AddLevelGrid2D := Some g \<rparr>) })"

text \<open>\<open>Set2DMapforAddLev\<close>: the inner loop over \<open>yind\<close>, the outer loop over \<open>xind\<close>, and
  the function. \<open>mapdata\<close> is the array behind the pointer.\<close>

fun Set2DMap_ys ::
  "env \<Rightarrow> u8 list \<Rightarrow> int \<Rightarrow> int \<Rightarrow> int list \<Rightarrow> u8 list list list \<Rightarrow> u8 list list list option" where
  "Set2DMap_ys s mapdata levind xind [] g = Some g"
| "Set2DMap_ys s mapdata levind xind (yind # ys) g = do {
     v \<leftarrow> at_ix mapdata (xind + yind * EnvWidth_c (cfg s));
     g' \<leftarrow> put3 g levind xind yind v;
     Set2DMap_ys s mapdata levind xind ys g' }"

fun Set2DMap_xs ::
  "env \<Rightarrow> u8 list \<Rightarrow> int \<Rightarrow> int list \<Rightarrow> u8 list list list \<Rightarrow> u8 list list list option" where
  "Set2DMap_xs s mapdata levind [] g = Some g"
| "Set2DMap_xs s mapdata levind (xind # xs) g = do {
     g' \<leftarrow> Set2DMap_ys s mapdata levind xind (map int [0..<nat (EnvHeight_c (cfg s))]) g;
     Set2DMap_xs s mapdata levind xs g' }"

definition Set2DMapforAddLev :: "env \<Rightarrow> u8 list \<Rightarrow> int \<Rightarrow> (bool \<times> env) option" where
  "Set2DMapforAddLev s mapdata levind =
     (case AddLevelGrid2D s of
        None \<Rightarrow> Some (False, s)
      | Some g \<Rightarrow> do {
          g' \<leftarrow> Set2DMap_xs s mapdata levind (map int [0..<nat (EnvWidth_c (cfg s))]) g;
          Some (True, s\<lparr> AddLevelGrid2D := Some g' \<rparr>) })"

text \<open>\<open>UpdateCostinAddLev\<close>.\<close>

definition UpdateCostinAddLev :: "env \<Rightarrow> int \<Rightarrow> int \<Rightarrow> u8 \<Rightarrow> int \<Rightarrow> (bool \<times> env) option" where
  "UpdateCostinAddLev s x y newcost zlev = do {
     g \<leftarrow> AddLevelGrid2D s;
     g' \<leftarrow> put3 g zlev x y newcost;
     Some (True, s\<lparr> AddLevelGrid2D := Some g' \<rparr>) }"

subsection \<open>Well-formed objects\<close>

text \<open>The shape of the arrays that the class keeps: grids of \<open>EnvWidth_c\<close> columns of
  \<open>EnvHeight_c\<close> cells, one grid, one polygon and one list of swept cells per level.
  Without additional levels the pointers need not be set.\<close>

definition wf_grid2D :: "int \<Rightarrow> int \<Rightarrow> u8 list list \<Rightarrow> bool" where
  "wf_grid2D w h g \<longleftrightarrow> int (length g) = w \<and> list_all (\<lambda>col. int (length col) = h) g"

definition wf_levels :: "env \<Rightarrow> bool" where
  "wf_levels s \<longleftrightarrow>
     (case AddLevelGrid2D s of None \<Rightarrow> False
      | Some g \<Rightarrow> int (length g) = numofadditionalzlevs s
          \<and> list_all (wf_grid2D (EnvWidth_c (cfg s)) (EnvHeight_c (cfg s))) g)
   \<and> (case AddLevelFootprintPolygonV s of None \<Rightarrow> False
      | Some polys \<Rightarrow> int (length polys) = numofadditionalzlevs s)
   \<and> (case AdditionalInfoinActionsV s of None \<Rightarrow> False
      | Some tab \<Rightarrow> int (length tab) = NAVXYTHETALAT_THETADIRS (cfg s)
          \<and> list_all (\<lambda>row. int (length row) = actionwidth (cfg s)
               \<and> list_all (\<lambda>info. int (length (intersectingcellsV info)) = numofadditionalzlevs s) row) tab)"

definition wf_env :: "env \<Rightarrow> bool" where
  "wf_env s \<longleftrightarrow>
     wf_grid2D (EnvWidth_c (cfg s)) (EnvHeight_c (cfg s)) (Grid2D (cfg s))
   \<and> 0 \<le> numofadditionalzlevs s
   \<and> (numofadditionalzlevs s = 0 \<or> wf_levels s)"

definition wf_action :: "env \<Rightarrow> EnvNAVXYTHETALATAction_t \<Rightarrow> bool" where
  "wf_action s a \<longleftrightarrow>
     0 \<le> starttheta a \<and> starttheta a < NAVXYTHETALAT_THETADIRS (cfg s)
   \<and> 0 \<le> aind a \<and> aind a < actionwidth (cfg s)
   \<and> 0 \<le> cost a \<and> cost a < 2 ^ 32"

text \<open>The actions of the base configuration, one row of \<open>actionwidth\<close> actions for each
  of the headings, as \<open>InitializeAdditionalLevels\<close> reads them.\<close>

definition wf_ActionsV :: "EnvNAVXYTHETALATConfig_t \<Rightarrow> bool" where
  "wf_ActionsV c \<longleftrightarrow>
     int (length (ActionsV c)) = NAVXYTHETALAT_THETADIRS c
   \<and> list_all (\<lambda>row. int (length row) = actionwidth c) (ActionsV c)"

text \<open>The entry that \<open>init_action\<close> computes when its reads are within \<open>ActionsV\<close>.\<close>

definition info_of ::
  "(int \<Rightarrow> int \<Rightarrow> sbpl_2Dpt_t list \<Rightarrow> sbpl_2Dcell_t list) \<Rightarrow> env \<Rightarrow> sbpl_2Dpt_t list list
     \<Rightarrow> int \<Rightarrow> int \<Rightarrow> EnvNAVXYTHETAMLEVLATAddInfoAction_t"  where
  "info_of sweep s polys tind a = \<lparr> addinfo_dX = dX (ActionsV (cfg s) ! nat tind ! nat a),
      addinfo_dY = dY (ActionsV (cfg s) ! nat tind ! nat a),
      addinfo_starttheta = tind, addinfo_endtheta = endtheta (ActionsV (cfg s) ! nat tind ! nat a),
      intersectingcellsV = map (sweep tind a) polys \<rparr>"

subsection \<open>Costs in the words of the specification\<close>

text \<open>The cost of a cell on a level, 0 where the grid has no such cell; the cost of a cell
  of the base grid.\<close>

definition levelCost :: "env \<Rightarrow> int \<Rightarrow> int \<Rightarrow> int \<Rightarrow> u8" where
  "levelCost s lev x y = (case AddLevelGrid2D_at s lev x y of Some c \<Rightarrow> c | None \<Rightarrow> 0)"

definition baseCost :: "env \<Rightarrow> int \<Rightarrow> int \<Rightarrow> u8" where
  "baseCost s x y = (case Grid2D_at s x y of Some c \<Rightarrow> c | None \<Rightarrow> 0)"

text \<open>The costs observed along an action: the costs on all levels of one intermediate
  cell translated by the source cell, the costs over a list of cells, their maximum
  (the overall running maximum after these cells), and the maximum on one level.\<close>

definition cell_costs :: "env \<Rightarrow> int \<Rightarrow> int \<Rightarrow> EnvNAVXYTHETALAT3Dcell_t \<Rightarrow> u8 list" where
  "cell_costs s SourceX SourceY c =
     map (\<lambda>l. levelCost s l (fst c + SourceX) (fst (snd c) + SourceY)) (levels s)"

definition observedCosts :: "env \<Rightarrow> int \<Rightarrow> int \<Rightarrow> EnvNAVXYTHETALAT3Dcell_t list \<Rightarrow> u8 list" where
  "observedCosts s SourceX SourceY cs = concat (map (cell_costs s SourceX SourceY) cs)"

definition maxObservedCost :: "env \<Rightarrow> int \<Rightarrow> int \<Rightarrow> EnvNAVXYTHETALAT3Dcell_t list \<Rightarrow> u8" where
  "maxObservedCost s SourceX SourceY cs = fold max (observedCosts s SourceX SourceY cs) 0"

definition maxObservedAt ::
  "env \<Rightarrow> int \<Rightarrow> int \<Rightarrow> int \<Rightarrow> EnvNAVXYTHETALAT3Dcell_t list \<Rightarrow> u8" where
  "maxObservedAt s SourceX SourceY l cs =
     fold max (map (\<lambda>c. levelCost s l (fst c + SourceX) (fst (snd c) + SourceY)) cs) 0"

text \<open>The \<open>j\<close>-th intermediate cell ends the scan: translated by the source cell it lies
  outside the grid, or with it the overall running maximum is at or above
  \<open>cost_inscribed_thresh\<close>.\<close>

definition scan_stops ::
  "env \<Rightarrow> int \<Rightarrow> int \<Rightarrow> EnvNAVXYTHETALAT3Dcell_t list \<Rightarrow> nat \<Rightarrow> bool" where
  "scan_stops s SourceX SourceY cs j \<longleftrightarrow>
     \<not> in_bounds s (fst (cs ! j) + SourceX) (fst (snd (cs ! j)) + SourceY)
   \<or> cost_inscribed_thresh (cfg s) \<le> maxObservedCost s SourceX SourceY (take (Suc j) cs)"

text \<open>The number of cells whose costs have entered the maxima when the scan ends with
  \<open>i\<close>: a cell outside the grid is not read.\<close>

definition cells_read ::
  "env \<Rightarrow> int \<Rightarrow> int \<Rightarrow> EnvNAVXYTHETALAT3Dcell_t list \<Rightarrow> nat \<Rightarrow> nat" where
  "cells_read s SourceX SourceY cs i =
     (if i < length cs
         \<and> in_bounds s (fst (cs ! i) + SourceX) (fst (snd (cs ! i)) + SourceY)
      then Suc i else i)"

text \<open>The footprint check blocks on level \<open>lev\<close>: the polygon of the level has more than
  one vertex, the maximum of the level is at or above
  \<open>cost_possibly_circumscribed_thresh\<close>, and one of the swept cells of the level,
  translated by the source cell, is not valid on the level.\<close>

definition blocking_level ::
  "env \<Rightarrow> int \<Rightarrow> int \<Rightarrow> EnvNAVXYTHETALATAction_t \<Rightarrow> u8 list \<Rightarrow> int \<Rightarrow> bool" where
  "blocking_level s SX SY a each lev \<longleftrightarrow>
     (\<exists>polys cells. AddLevelFootprintPolygonV s = Some polys \<and> length (polys ! nat lev) > 1
        \<and> cost_possibly_circumscribed_thresh (cfg s) \<le> uint (each ! nat lev)
        \<and> intersectingcells_at s (starttheta a) (aind a) lev = Some cells
        \<and> (\<exists>cell\<in>set cells. IsValidCell_lev s (fst cell + SX) (snd cell + SY) lev = Some False))"

text \<open>The footprint check blocks on level \<open>lev\<close>, with the maximum of the level taken
  over all intermediate cells of the action.\<close>

definition footprint_blocks ::
  "env \<Rightarrow> int \<Rightarrow> int \<Rightarrow> EnvNAVXYTHETALATAction_t \<Rightarrow> int \<Rightarrow> bool" where
  "footprint_blocks s SourceX SourceY a lev \<longleftrightarrow>
     (case AddLevelFootprintPolygonV s of None \<Rightarrow> False
      | Some polys \<Rightarrow> length (polys ! nat lev) > 1)
   \<and> cost_possibly_circumscribed_thresh (cfg s)
        \<le> uint (maxObservedAt s SourceX SourceY lev (interm3DcellsV a))
   \<and> (case intersectingcells_at s (starttheta a) (aind a) lev of None \<Rightarrow> False
      | Some cells \<Rightarrow> list_ex (\<lambda>cell.
          IsValidCell_lev s (fst cell + SourceX) (snd cell + SourceY) lev = Some False) cells)"

text \<open>The action is blocked: the source or the destination cell is not valid, or, with
  additional levels, the destination cell is at or above \<open>cost_inscribed_thresh\<close> on a
  level, an intermediate cell ends the scan, the maximum of the observed costs is at
  or above \<open>obsthresh\<close>, or the footprint check blocks on a level.\<close>

definition action_blocked :: "env \<Rightarrow> int \<Rightarrow> int \<Rightarrow> EnvNAVXYTHETALATAction_t \<Rightarrow> bool" where
  "action_blocked s SourceX SourceY a \<longleftrightarrow>
     IsValidCell s SourceX SourceY \<noteq> Some True
   \<or> IsValidCell s (SourceX + dX a) (SourceY + dY a) \<noteq> Some True
   \<or> (numofadditionalzlevs s \<noteq> 0
      \<and> (list_ex (\<lambda>l. cost_inscribed_thresh (cfg s)
               \<le> levelCost s l (SourceX + dX a) (SourceY + dY a)) (levels s)
        \<or> list_ex (scan_stops s SourceX SourceY (interm3DcellsV a))
             [0..<length (interm3DcellsV a)]
        \<or> obsthresh (cfg s) \<le> maxObservedCost s SourceX SourceY (interm3DcellsV a)
        \<or> list_ex (footprint_blocks s SourceX SourceY a) (levels s)))"

subsection \<open>A small environment\<close>

text \<open>A grid of two by two cells with two additional levels, used to evaluate the
  functions: the cell (0, 0) costs 5 on the base level, 3 on level 0 and 7 on level 1;
  the single action moves one cell along \<open>x\<close>.\<close>

definition act0 :: EnvNAVXYTHETALATAction_t where
  "act0 = \<lparr> aind = 0, starttheta = 0, dX = 1, dY = 0, endtheta = 0, cost = 10,
            interm3DcellsV = [(0, 0, 0), (1, 0, 0)] \<rparr>"

definition cfg0 :: EnvNAVXYTHETALATConfig_t where
  "cfg0 = \<lparr> EnvWidth_c = 2, EnvHeight_c = 2, Grid2D = [[5, 0], [0, 0]],
            obsthresh = 254, cost_inscribed_thresh = 253,
            cost_possibly_circumscribed_thresh = 128, actionwidth = 1,
            ActionsV = [[act0]], INFINITECOST = 1000000000, NAVXYTHETALAT_THETADIRS = 1 \<rparr>"

definition env0 :: env where
  "env0 = \<lparr> EnvNAVXYTHETALATCfg = cfg0, numofadditionalzlevs = 2,
            AddLevelFootprintPolygonV = Some [[(0, 0), (1, 0), (1, 1)], [(0, 0)]],
            AdditionalInfoinActionsV = Some [[\<lparr> addinfo_dX = 1, addinfo_dY = 0,
               addinfo_starttheta = 0, addinfo_endtheta = 0,
               intersectingcellsV = [[(1, 0)], []] \<rparr>]],
            AddLevelGrid2D = Some [[[3, 0], [0, 0]], [[7, 0], [0, 0]]] \<rparr>"

text \<open>The footprints of the small environment and a sweep that yields its table: the
  cell (1, 0) for a polygon, nothing for a point.\<close>

definition polys0 :: "sbpl_2Dpt_t list list" where
  "polys0 = [[(0, 0), (1, 0), (1, 1)], [(0, 0)]]"

definition sweep0 :: "int \<Rightarrow> int \<Rightarrow> sbpl_2Dpt_t list \<Rightarrow> sbpl_2Dcell_t list" where
  "sweep0 tind a poly = (if length poly > 1 then [(1, 0)] else [])"

definition zeros0 :: "u8 list list list" where
  "zeros0 = [[[0, 0], [0, 0]], [[0, 0], [0, 0]]]"

text \<open>The small environment with the cost 253 at the cell (0, 1) of level 1, and an action
  that passes this cell on its way to (1, 0).\<close>

definition env1 :: env where
  "env1 = env0\<lparr> AddLevelGrid2D := Some [[[3, 0], [0, 0]], [[7, 253], [0, 0]]] \<rparr>"

definition act1 :: EnvNAVXYTHETALATAction_t where
  "act1 = act0\<lparr> interm3DcellsV := [(0, 0, 0), (0, 1, 0), (1, 0, 0)] \<rparr>"

text \<open>The small environment with costs 130 at (0, 0) and 254 at (1, 1) on level 0, where
  the footprint of level 0 sweeps the cell (1, 1) along the action.\<close>

definition env2 :: env where
  "env2 = env0\<lparr> AdditionalInfoinActionsV := Some [[\<lparr> addinfo_dX = 1, addinfo_dY = 0,
               addinfo_starttheta = 0, addinfo_endtheta = 0,
               intersectingcellsV = [[(1, 1)], []] \<rparr>]],
            AddLevelGrid2D := Some [[[130, 0], [0, 254]], [[7, 0], [0, 0]]] \<rparr>"

text \<open>The small environment with a single cell that is not free on the additional levels:
  the cost 253 at the cell (0, 1) of level 1, which the action \<open>act1\<close> passes; and the
  cost 200 at the cell (1, 1) of level 0, which the footprint of level 0 sweeps along
  \<open>act0\<close> but which is no intermediate cell. An action of cost 300000000. A base
  environment that returns the cost of the action, as on a free base grid.\<close>

definition env3 :: env where
  "env3 = env0\<lparr> AddLevelGrid2D := Some [[[0, 0], [0, 0]], [[0, 253], [0, 0]]] \<rparr>"

definition env4 :: env where
  "env4 = env2\<lparr> AddLevelGrid2D := Some [[[0, 0], [0, 200]], [[0, 0], [0, 0]]] \<rparr>"

definition act5 :: EnvNAVXYTHETALATAction_t where
  "act5 = act0\<lparr> cost := 300000000 \<rparr>"

definition base_nominal :: "int \<Rightarrow> int \<Rightarrow> int \<Rightarrow> EnvNAVXYTHETALATAction_t \<Rightarrow> int" where
  "base_nominal x y th a = cost a"

section \<open>Properties\<close>

subsection \<open>Arrays and well-formed objects\<close>

lemma at_ix_put_ix:
  "put_ix xs i v = Some xs' \<Longrightarrow> at_ix xs' j = (if j = i then Some v else at_ix xs j)"
  by (auto simp: at_ix_def put_ix_def nth_list_update split: if_splits)

lemma at3_put3:
  assumes "put3 g lev x y v = Some g'"
  shows "at3 g' a b c = (if a = lev \<and> b = x \<and> c = y then Some v else at3 g a b c)"
proof -
  from assms obtain l col col' l' where
    l: "at_ix g lev = Some l" and col: "at_ix l x = Some col"
    and col': "put_ix col y v = Some col'" and l': "put_ix l x col' = Some l'"
    and g': "put_ix g lev l' = Some g'"
    by (auto simp: put3_def split: bind_splits)
  show ?thesis
  proof (cases "a = lev")
    case False
    then show ?thesis using at_ix_put_ix [OF g', of a] by (simp add: at3_def)
  next
    case True
    note a = this
    show ?thesis
    proof (cases "b = x")
      case False
      then show ?thesis
        using a l at_ix_put_ix [OF g', of a] at_ix_put_ix [OF l', of b] by (simp add: at3_def)
    next
      case True
      then show ?thesis
        using a l col at_ix_put_ix [OF g', of a] at_ix_put_ix [OF l', of b]
          at_ix_put_ix [OF col', of c] by (simp add: at3_def)
    qed
  qed
qed

lemma put_ix_Some: "at_ix xs i = Some c \<Longrightarrow> \<exists>xs'. put_ix xs i v = Some xs'"
  by (auto simp: at_ix_def put_ix_def split: if_splits)

lemma put3_Some: 
  assumes "at3 g lev x y = Some c" shows "\<exists>g'. put3 g lev x y v = Some g'"
proof -
  from assms obtain l col where
    l: "at_ix g lev = Some l" and col: "at_ix l x = Some col" and c: "at_ix col y = Some c"
    by (auto simp: at3_def split: bind_splits)
  from put_ix_Some [OF c] obtain col' where col': "put_ix col y v = Some col'" by blast 
  from put_ix_Some [OF col] obtain l' where l': "put_ix l x col' = Some l'" by blast
  from put_ix_Some [OF l] obtain g' where g': "put_ix g lev l' = Some g'" by blast
  show ?thesis using l col col' l' g' by (simp add: put3_def)
qed

lemma set_levels: "l \<in> set (levels s) \<longleftrightarrow> 0 \<le> l \<and> l < numofadditionalzlevs s"
  by (auto simp: levels_def image_iff intro: rev_bexI[where x="nat l"])

lemma wf_AddLevelGrid2D_at:
  assumes "wf_env s" "0 \<le> lev" "lev < numofadditionalzlevs s" "in_bounds s x y"
  shows "AddLevelGrid2D_at s lev x y = Some (levelCost s lev x y)"
proof -
  from assms have wl: "wf_levels s" by (auto simp: wf_env_def)
  then obtain g where g: "AddLevelGrid2D s = Some g" "int (length g) = numofadditionalzlevs s"
     "list_all (wf_grid2D (EnvWidth_c (cfg s)) (EnvHeight_c (cfg s))) g"
    by (auto simp: wf_levels_def split: option.splits)
  from g assms have ll: "nat lev < length g" by simp
  with g(3) have w: "wf_grid2D (EnvWidth_c (cfg s)) (EnvHeight_c (cfg s)) (g ! nat lev)"
    by (simp add: list_all_length)
  from w assms(4) have lx: "nat x < length (g ! nat lev)"
    by (auto simp: wf_grid2D_def in_bounds_def nat_less_iff)
  with w have "int (length (g ! nat lev ! nat x)) = EnvHeight_c (cfg s)"
    by (simp add: wf_grid2D_def list_all_length)
  with assms(4) have ly: "nat y < length (g ! nat lev ! nat x)"
    by (auto simp: in_bounds_def nat_less_iff)
  from ll lx ly assms g(1)
  have "AddLevelGrid2D_at s lev x y \<noteq> None"
    by (auto simp: AddLevelGrid2D_at_def at3_def at_ix_def in_bounds_def nat_less_iff)
  then show ?thesis by (auto simp: levelCost_def)
qed

lemma wf_Grid2D_at:
  assumes "wf_env s" "in_bounds s x y"
  shows "Grid2D_at s x y = Some (baseCost s x y)"
proof -
  from assms have w: "wf_grid2D (EnvWidth_c (cfg s)) (EnvHeight_c (cfg s)) (Grid2D (cfg s))"
    by (simp add: wf_env_def)
  from w assms(2) have lx: "nat x < length (Grid2D (cfg s))"
    by (auto simp: wf_grid2D_def in_bounds_def nat_less_iff)
  with w have "int (length (Grid2D (cfg s) ! nat x)) = EnvHeight_c (cfg s)"
    by (simp add: wf_grid2D_def list_all_length)
  with assms(2) have ly: "nat y < length (Grid2D (cfg s) ! nat x)"
    by (auto simp: in_bounds_def nat_less_iff)
  from lx ly assms have "Grid2D_at s x y \<noteq> None"
    by (auto simp: Grid2D_at_def at_ix_def in_bounds_def nat_less_iff)
  then show ?thesis by (auto simp: baseCost_def)
qed


lemma levels_env0: "levels env0 = [0, 1]"
  by (simp add: levels_def env0_def upt_conv_Cons)

lemma wf_env0: "wf_env env0"
  by (simp add: wf_env_def wf_levels_def wf_grid2D_def env0_def cfg0_def)

lemma env0_simps:
  "cfg env0 = cfg0" "numofadditionalzlevs env0 = 2"
  "AddLevelFootprintPolygonV env0 = Some [[(0, 0), (1, 0), (1, 1)], [(0, 0)]]"
  "AdditionalInfoinActionsV env0 = Some [[\<lparr> addinfo_dX = 1, addinfo_dY = 0,
               addinfo_starttheta = 0, addinfo_endtheta = 0,
               intersectingcellsV = [[(1, 0)], []] \<rparr>]]"
  "AddLevelGrid2D env0 = Some [[[3, 0], [0, 0]], [[7, 0], [0, 0]]]"
  by (simp_all add: env0_def)

lemma cfg0_simps:
  "EnvWidth_c cfg0 = 2" "EnvHeight_c cfg0 = 2" "Grid2D cfg0 = [[5, 0], [0, 0]]"
  "obsthresh cfg0 = 254" "cost_inscribed_thresh cfg0 = 253"
  "cost_possibly_circumscribed_thresh cfg0 = 128" "actionwidth cfg0 = 1"
  "ActionsV cfg0 = [[act0]]" "INFINITECOST cfg0 = 1000000000"
  "NAVXYTHETALAT_THETADIRS cfg0 = 1"
  by (simp_all add: cfg0_def)

lemmas eval0 = env0_simps cfg0_simps levels_env0 in_bounds_def
  AddLevelGrid2D_at_def Grid2D_at_def at3_def at_ix_def put3_def put_ix_def

lemma env1_simps:
  "cfg env1 = cfg0" "numofadditionalzlevs env1 = 2"
  "AddLevelFootprintPolygonV env1 = Some [[(0, 0), (1, 0), (1, 1)], [(0, 0)]]"
  "AdditionalInfoinActionsV env1 = Some [[\<lparr> addinfo_dX = 1, addinfo_dY = 0,
               addinfo_starttheta = 0, addinfo_endtheta = 0,
               intersectingcellsV = [[(1, 0)], []] \<rparr>]]"
  "AddLevelGrid2D env1 = Some [[[3, 0], [0, 0]], [[7, 253], [0, 0]]]"
  by (simp_all add: env1_def env0_simps)

lemma env2_simps:
  "cfg env2 = cfg0" "numofadditionalzlevs env2 = 2"
  "AddLevelFootprintPolygonV env2 = Some [[(0, 0), (1, 0), (1, 1)], [(0, 0)]]"
  "AdditionalInfoinActionsV env2 = Some [[\<lparr> addinfo_dX = 1, addinfo_dY = 0,
               addinfo_starttheta = 0, addinfo_endtheta = 0,
               intersectingcellsV = [[(1, 1)], []] \<rparr>]]"
  "AddLevelGrid2D env2 = Some [[[130, 0], [0, 254]], [[7, 0], [0, 0]]]"
  by (simp_all add: env2_def env0_simps)

lemma levels_env1: "levels env1 = [0, 1]"
  by (simp add: levels_def env1_simps upt_conv_Cons)

lemma levels_env2: "levels env2 = [0, 1]"
  by (simp add: levels_def env2_simps upt_conv_Cons)

lemma wf_env1: "wf_env env1"
  by (simp add: wf_env_def wf_levels_def wf_grid2D_def env1_simps cfg0_simps)

lemma wf_env2: "wf_env env2"
  by (simp add: wf_env_def wf_levels_def wf_grid2D_def env2_simps cfg0_simps)

lemma act_simps:
  "aind act0 = 0" "starttheta act0 = 0" "dX act0 = 1" "dY act0 = 0" "cost act0 = 10"
  "interm3DcellsV act0 = [(0, 0, 0), (1, 0, 0)]"
  "aind act1 = 0" "starttheta act1 = 0" "dX act1 = 1" "dY act1 = 0" "cost act1 = 10"
  "interm3DcellsV act1 = [(0, 0, 0), (0, 1, 0), (1, 0, 0)]"
  by (simp_all add: act0_def act1_def)

lemmas eval1 = env1_simps env2_simps cfg0_simps levels_env1 levels_env2 act_simps in_bounds_def
  AddLevelGrid2D_at_def Grid2D_at_def at3_def at_ix_def put_ix_def

lemmas cost1 = levelCost_def maxObservedCost_def observedCosts_def cell_costs_def

subsection \<open>Validity of a cell on one level\<close>

text \<open>Claim C10. \<open>IsValidCell(X, Y, levind)\<close> returns false for every cell when
  \<open>levind\<close> is at or above the number of additional levels: the comparison of the level
  index is part of the conjunction and comes before the grid is read, so the call
  returns and reads nothing outside the grids. (In the witness the cell (1, 1) is free
  on both levels of the small environment.)\<close>

theorem IsValidCell_lev_over_range:
  "numofadditionalzlevs s \<le> levind \<Longrightarrow> IsValidCell_lev s X Y levind = Some False"
  by (simp add: IsValidCell_lev_def)

theorem IsValidCell_lev_over_range_witness:
  "numofadditionalzlevs env0 \<le> 2 \<and> IsValidCell_lev env0 1 1 2 = Some False
   \<and> IsValidCell_lev env0 1 1 0 = Some True \<and> IsValidCell_lev env0 1 1 1 = Some True"
  using IsValidCell_lev_over_range [of env0 2 1 1]
  by (simp add: IsValidCell_lev_def AddLevelGrid2D_at_def at3_def at_ix_def env0_def cfg0_def)

subsection \<open>The cost of a cell over all levels\<close>

lemma GetMapCost_levels_fold:
  "\<forall>l\<in>set ls. AddLevelGrid2D_at s l X Y = Some (levelCost s l X Y) \<Longrightarrow>
   GetMapCost_levels s X Y m ls = Some (fold max (map (\<lambda>l. levelCost s l X Y) ls) m)"
  by (induction ls arbitrary: m) (simp_all add: max.commute)

text \<open>Claim C4. For a cell of the grid, \<open>GetMapCost(X, Y)\<close> is the maximum of the cost
  of the cell on the base grid and its costs on all additional levels. The witness is
  the example of the specification: base cost 5 and level costs 3 and 7 give 7.\<close>

theorem GetMapCost_pointwise_max:
  assumes "wf_env s" "in_bounds s X Y"
  shows "GetMapCost s X Y
         = Some (Max (set (baseCost s X Y # map (\<lambda>l. levelCost s l X Y) (levels s))))"
proof -
  have "\<forall>l\<in>set (levels s). AddLevelGrid2D_at s l X Y = Some (levelCost s l X Y)"
    using assms by (simp add: set_levels wf_AddLevelGrid2D_at)
  then have "GetMapCost_levels s X Y (baseCost s X Y) (levels s)
      = Some (fold max (map (\<lambda>l. levelCost s l X Y) (levels s)) (baseCost s X Y))"
    by (rule GetMapCost_levels_fold)
  then have "GetMapCost s X Y
      = Some (fold max (map (\<lambda>l. levelCost s l X Y) (levels s)) (baseCost s X Y))"
    using assms by (simp add: GetMapCost_def wf_Grid2D_at)
  then show ?thesis
    by (simp only: Max.set_eq_fold)
qed

theorem GetMapCost_pointwise_max_witness:
  "wf_env env0 \<and> in_bounds env0 0 0 \<and> baseCost env0 0 0 = 5
   \<and> map (\<lambda>l. levelCost env0 l 0 0) (levels env0) = [3, 7]
   \<and> GetMapCost env0 0 0 = Some 7"
proof -
  have b: "in_bounds env0 0 0" by (simp add: in_bounds_def env0_def cfg0_def)
  have c: "baseCost env0 0 0 = 5"
    by (simp add: baseCost_def Grid2D_at_def at_ix_def env0_def cfg0_def)
  have l: "map (\<lambda>l. levelCost env0 l 0 0) (levels env0) = [3, 7]"
    by (simp add: levels_env0) (simp add: levelCost_def AddLevelGrid2D_at_def at3_def at_ix_def env0_def)
  show ?thesis
    using GetMapCost_pointwise_max [OF wf_env0 b] wf_env0 b c l by simp
qed


subsection \<open>Validity of a cell over all levels\<close>

lemma IsValidCell_levels_eq:
  "\<forall>l\<in>set ls. AddLevelGrid2D_at s l X Y = Some (f l) \<Longrightarrow>
   IsValidCell_levels s X Y ls = Some (\<forall>l\<in>set ls. f l < obsthresh (cfg s))"
  by (induction ls) (auto simp: not_le)

lemma wf_base_IsValidCell:
  "wf_env s \<Longrightarrow>
   base_IsValidCell s X Y = Some (in_bounds s X Y \<and> baseCost s X Y < obsthresh (cfg s))"
  by (simp add: base_IsValidCell_def wf_Grid2D_at)

lemma wf_IsValidCell:
  assumes "wf_env s"
  shows "IsValidCell s X Y = Some (in_bounds s X Y \<and> baseCost s X Y < obsthresh (cfg s)
           \<and> (\<forall>l\<in>set (levels s). levelCost s l X Y < obsthresh (cfg s)))"
proof (cases "in_bounds s X Y")
  case False
  then show ?thesis using assms by (simp add: IsValidCell_def wf_base_IsValidCell)
next
  case True
  with assms have "\<forall>l\<in>set (levels s). AddLevelGrid2D_at s l X Y = Some (levelCost s l X Y)"
    by (simp add: set_levels wf_AddLevelGrid2D_at)
  from IsValidCell_levels_eq [OF this] show ?thesis
    using assms True by (simp add: IsValidCell_def wf_base_IsValidCell)
qed

lemma UpdateCostinAddLev_at:
  assumes "UpdateCostinAddLev s x y c lev = Some (r, s')"
  shows "r = True" "cfg s' = cfg s" "numofadditionalzlevs s' = numofadditionalzlevs s"
    "AddLevelGrid2D_at s' l a b = (if l = lev \<and> a = x \<and> b = y then Some c
                                    else AddLevelGrid2D_at s l a b)"
proof -
  from assms obtain g g' where g: "AddLevelGrid2D s = Some g" "put3 g lev x y c = Some g'"
    and s': "s' = s\<lparr>AddLevelGrid2D := Some g'\<rparr>" and r: "r = True"
    by (auto simp: UpdateCostinAddLev_def split: bind_splits)
  show "r = True" by (rule r)
  show "cfg s' = cfg s" "numofadditionalzlevs s' = numofadditionalzlevs s" by (simp_all add: s')
  show "AddLevelGrid2D_at s' l a b = (if l = lev \<and> a = x \<and> b = y then Some c
                                    else AddLevelGrid2D_at s l a b)"
    using at3_put3 [OF g(2), of l a b] g(1) by (simp add: s' AddLevelGrid2D_at_def)
qed

lemma wf_UpdateCostinAddLev:
  assumes "wf_env s" "0 \<le> lev" "lev < numofadditionalzlevs s" "in_bounds s x y"
  shows "\<exists>s'. UpdateCostinAddLev s x y c lev = Some (True, s')"
proof -
  from wf_AddLevelGrid2D_at [OF assms]
  obtain g where g: "AddLevelGrid2D s = Some g" "at3 g lev x y = Some (levelCost s lev x y)"
    by (auto simp: AddLevelGrid2D_at_def split: bind_splits)
  from put3_Some [OF g(2)] obtain g' where "put3 g lev x y c = Some g'" by blast
  with g show ?thesis by (simp add: UpdateCostinAddLev_def)
qed

lemma in_bounds_cfg: "cfg s' = cfg s \<Longrightarrow> in_bounds s' x y = in_bounds s x y"
  by (simp add: in_bounds_def)

lemma IsValidCell_after_update:
  assumes "wf_env s" "0 \<le> lev" "lev < numofadditionalzlevs s" "in_bounds s X Y"
    "obsthresh (cfg s) \<le> c" "UpdateCostinAddLev s X Y c lev = Some (True, s')"
  shows "IsValidCell s' X Y = Some False"
proof -
  note u = UpdateCostinAddLev_at [OF assms(6)]
  have gb: "Grid2D_at s' X Y = Grid2D_at s X Y" by (simp add: Grid2D_at_def u(2))
  have b: "base_IsValidCell s' X Y = base_IsValidCell s X Y"
    by (simp add: base_IsValidCell_def in_bounds_cfg [OF u(2)] u(2) gb)
  have lv: "levels s' = levels s" by (simp add: levels_def u(3))
  have "\<forall>l\<in>set (levels s). AddLevelGrid2D_at s' l X Y
          = Some (if l = lev then c else levelCost s l X Y)"
    using assms by (simp add: u(4) set_levels wf_AddLevelGrid2D_at)
  from IsValidCell_levels_eq [where s = s', OF this]
  have "IsValidCell_levels s' X Y (levels s)
      = Some (\<forall>l\<in>set (levels s). (if l = lev then c else levelCost s l X Y) < obsthresh (cfg s))"
    by (simp add: u(2))
  moreover have "lev \<in> set (levels s)" using assms by (simp add: set_levels)
  ultimately have "IsValidCell_levels s' X Y (levels s) = Some False"
    using assms(5) by (auto simp: not_less)
  then show ?thesis
    using assms(1) by (simp add: IsValidCell_def b lv wf_base_IsValidCell)
qed

text \<open>Claim C5. On a well-formed object \<open>IsValidCell(X, Y)\<close> returns true exactly when the
  cell is free on the base level and its cost on every additional level is below
  \<open>obsthresh\<close>; a cell outside the grid is invalid; and after the cost of a cell of the
  grid has been set to \<open>obsthresh\<close> or more on one level, the cell is invalid whatever
  the other levels hold.\<close>

theorem IsValidCell_all_levels:
  assumes "wf_env s"
  shows "(\<exists>b. base_IsValidCell s X Y = Some b
            \<and> IsValidCell s X Y
              = Some (b \<and> (\<forall>l\<in>set (levels s). levelCost s l X Y < obsthresh (cfg s))))
       \<and> (\<not> in_bounds s X Y \<longrightarrow> IsValidCell s X Y = Some False)
       \<and> (0 \<le> lev \<and> lev < numofadditionalzlevs s \<and> in_bounds s X Y \<and> obsthresh (cfg s) \<le> c
            \<longrightarrow> (\<exists>s'. UpdateCostinAddLev s X Y c lev = Some (True, s')
                       \<and> IsValidCell s' X Y = Some False))"
proof (intro conjI impI)
  show "\<exists>b. base_IsValidCell s X Y = Some b
            \<and> IsValidCell s X Y
              = Some (b \<and> (\<forall>l\<in>set (levels s). levelCost s l X Y < obsthresh (cfg s)))"
    using assms by (simp add: wf_base_IsValidCell wf_IsValidCell)
next
  assume "\<not> in_bounds s X Y"
  then show "IsValidCell s X Y = Some False"
    using assms by (simp add: wf_IsValidCell)
next
  assume a: "0 \<le> lev \<and> lev < numofadditionalzlevs s \<and> in_bounds s X Y \<and> obsthresh (cfg s) \<le> c"
  with wf_UpdateCostinAddLev [OF assms, of lev X Y c]
  obtain s' where s': "UpdateCostinAddLev s X Y c lev = Some (True, s')" by blast
  from a have "IsValidCell s' X Y = Some False"
    by (intro IsValidCell_after_update [OF assms _ _ _ _ s']) simp_all
  with s' show "\<exists>s'. UpdateCostinAddLev s X Y c lev = Some (True, s')
                       \<and> IsValidCell s' X Y = Some False" by blast
qed

theorem IsValidCell_all_levels_witness:
  "wf_env env0 \<and> IsValidCell env0 1 1 = Some True \<and> IsValidCell env0 2 0 = Some False
   \<and> \<not> in_bounds env0 2 0 \<and> in_bounds env0 1 1 \<and> obsthresh (cfg env0) \<le> 254
   \<and> (\<exists>s'. UpdateCostinAddLev env0 1 1 254 1 = Some (True, s') \<and> IsValidCell s' 1 1 = Some False)"
proof -
  have 1: "IsValidCell env0 1 1 = Some True"
    by (simp add: IsValidCell_def base_IsValidCell_def eval0)
  have 2: "in_bounds env0 1 1" "\<not> in_bounds env0 2 0" "obsthresh (cfg env0) \<le> 254"
    "(0::int) \<le> 1" "1 < numofadditionalzlevs env0"
    by (simp_all add: eval0)
  show ?thesis
    using IsValidCell_all_levels [OF wf_env0, of 2 0 1 254]
      IsValidCell_all_levels [OF wf_env0, of 1 1 1 254] wf_env0 1 2 by simp
qed

subsection \<open>Loading a level and updating a cell\<close>

lemma set_upto_int: "x \<in> set (map int [0..<nat n]) \<longleftrightarrow> 0 \<le> x \<and> x < n"
  by (auto simp: image_iff intro: rev_bexI[where x="nat x"])

lemma cell_index_bounds:
  assumes "0 \<le> x" "x < w" "0 \<le> y" "y < (h::int)"
  shows "0 \<le> x + y * w" "x + y * w < w * h"
proof -
  from assms show "0 \<le> x + y * w" by simp
  from assms have "(y + 1) * w \<le> h * w" by (intro mult_right_mono) simp_all
  with assms show "x + y * w < w * h" by (simp add: algebra_simps)
qed

lemma Set2DMap_ys_at3:
  assumes "\<forall>y\<in>set ys. (\<exists>c. at3 g lev x y = Some c)
             \<and> (\<exists>v. at_ix mapdata (x + y * EnvWidth_c (cfg s)) = Some v)"
  shows "\<exists>g'. Set2DMap_ys s mapdata lev x ys g = Some g'
           \<and> (\<forall>a b c. at3 g' a b c
                = (if a = lev \<and> b = x \<and> c \<in> set ys
                   then at_ix mapdata (b + c * EnvWidth_c (cfg s)) else at3 g a b c))"
  using assms
proof (induction ys arbitrary: g)
  case Nil
  then show ?case by simp
next
  case (Cons y ys)
  from Cons.prems obtain c v where c: "at3 g lev x y = Some c"
    and v: "at_ix mapdata (x + y * EnvWidth_c (cfg s)) = Some v" by auto
  from put3_Some [OF c] obtain g1 where g1: "put3 g lev x y v = Some g1" by blast
  note r = at3_put3 [OF g1]
  have "\<forall>y'\<in>set ys. (\<exists>c. at3 g1 lev x y' = Some c)
             \<and> (\<exists>v. at_ix mapdata (x + y' * EnvWidth_c (cfg s)) = Some v)"
    using Cons.prems by (simp add: r)
  from Cons.IH [OF this] obtain g' where
    g': "Set2DMap_ys s mapdata lev x ys g1 = Some g'"
    and rd: "\<And>a b c. at3 g' a b c
                = (if a = lev \<and> b = x \<and> c \<in> set ys
                   then at_ix mapdata (b + c * EnvWidth_c (cfg s)) else at3 g1 a b c)"
    by blast
  have "Set2DMap_ys s mapdata lev x (y # ys) g = Some g'"
    using v g1 g' by simp
  moreover have "\<forall>a b c. at3 g' a b c
                = (if a = lev \<and> b = x \<and> c \<in> set (y # ys)
                   then at_ix mapdata (b + c * EnvWidth_c (cfg s)) else at3 g a b c)"
    using v by (simp add: rd r)
  ultimately show ?case by blast
qed

lemma Set2DMap_xs_at3:
  assumes "\<forall>x\<in>set xs. \<forall>y\<in>set (map int [0..<nat (EnvHeight_c (cfg s))]).
             (\<exists>c. at3 g lev x y = Some c)
             \<and> (\<exists>v. at_ix mapdata (x + y * EnvWidth_c (cfg s)) = Some v)"
  shows "\<exists>g'. Set2DMap_xs s mapdata lev xs g = Some g'
           \<and> (\<forall>a b c. at3 g' a b c
                = (if a = lev \<and> b \<in> set xs \<and> c \<in> set (map int [0..<nat (EnvHeight_c (cfg s))])
                   then at_ix mapdata (b + c * EnvWidth_c (cfg s)) else at3 g a b c))"
  using assms
proof (induction xs arbitrary: g)
  case Nil
  then show ?case by simp
next
  case (Cons x xs)
  let ?YS = "map int [0..<nat (EnvHeight_c (cfg s))]"
  from Cons.prems have "\<forall>y\<in>set ?YS. (\<exists>c. at3 g lev x y = Some c)
             \<and> (\<exists>v. at_ix mapdata (x + y * EnvWidth_c (cfg s)) = Some v)" by simp
  from Set2DMap_ys_at3 [OF this] obtain g1 where
    g1: "Set2DMap_ys s mapdata lev x ?YS g = Some g1"
    and r: "\<And>a b c. at3 g1 a b c
                = (if a = lev \<and> b = x \<and> c \<in> set ?YS
                   then at_ix mapdata (b + c * EnvWidth_c (cfg s)) else at3 g a b c)"
    by blast
  have "\<forall>x'\<in>set xs. \<forall>y\<in>set ?YS. (\<exists>c. at3 g1 lev x' y = Some c)
             \<and> (\<exists>v. at_ix mapdata (x' + y * EnvWidth_c (cfg s)) = Some v)"
    using Cons.prems by (simp add: r)
  from Cons.IH [OF this] obtain g' where
    g': "Set2DMap_xs s mapdata lev xs g1 = Some g'"
    and rd: "\<And>a b c. at3 g' a b c
                = (if a = lev \<and> b \<in> set xs \<and> c \<in> set ?YS
                   then at_ix mapdata (b + c * EnvWidth_c (cfg s)) else at3 g1 a b c)"
    by blast
  have "Set2DMap_xs s mapdata lev (x # xs) g = Some g'"
    using g1 g' by simp
  moreover have "\<forall>a b c. at3 g' a b c
                = (if a = lev \<and> b \<in> set (x # xs) \<and> c \<in> set ?YS
                   then at_ix mapdata (b + c * EnvWidth_c (cfg s)) else at3 g a b c)"
    by (auto simp: rd r)
  ultimately show ?case by blast
qed

lemma wf_Set2DMapforAddLev:
  assumes "wf_env s" "0 \<le> lev" "lev < numofadditionalzlevs s"
    "int (length mapdata) = EnvWidth_c (cfg s) * EnvHeight_c (cfg s)"
  shows "\<exists>s'. Set2DMapforAddLev s mapdata lev = Some (True, s')
           \<and> cfg s' = cfg s \<and> numofadditionalzlevs s' = numofadditionalzlevs s
           \<and> (\<forall>l x y. AddLevelGrid2D_at s' l x y
                = (if l = lev \<and> in_bounds s x y
                   then Some (mapdata ! nat (x + y * EnvWidth_c (cfg s)))
                   else AddLevelGrid2D_at s l x y))"
proof -
  let ?W = "EnvWidth_c (cfg s)" and ?H = "EnvHeight_c (cfg s)"
  let ?XS = "map int [0..<nat ?W]" and ?YS = "map int [0..<nat ?H]"
  from assms have "wf_levels s" by (auto simp: wf_env_def)
  then obtain g where g: "AddLevelGrid2D s = Some g"
    by (auto simp: wf_levels_def split: option.splits)
  have rdm: "at_ix mapdata (x + y * ?W) = Some (mapdata ! nat (x + y * ?W))"
    if "in_bounds s x y" for x y
    using that cell_index_bounds [of x ?W y ?H] assms(4)
    by (simp add: at_ix_def in_bounds_def)
  have "\<forall>x\<in>set ?XS. \<forall>y\<in>set ?YS. (\<exists>c. at3 g lev x y = Some c)
             \<and> (\<exists>v. at_ix mapdata (x + y * ?W) = Some v)"
  proof (intro ballI)
    fix x y assume "x \<in> set ?XS" "y \<in> set ?YS"
    then have b: "in_bounds s x y" by (simp only: set_upto_int in_bounds_def; simp)
    from wf_AddLevelGrid2D_at [OF assms(1-3) b] g rdm [OF b]
    show "(\<exists>c. at3 g lev x y = Some c) \<and> (\<exists>v. at_ix mapdata (x + y * ?W) = Some v)"
      by (simp add: AddLevelGrid2D_at_def)
  qed
  from Set2DMap_xs_at3 [OF this] obtain g' where
    g': "Set2DMap_xs s mapdata lev ?XS g = Some g'"
    and rd: "\<And>a b c. at3 g' a b c
                = (if a = lev \<and> b \<in> set ?XS \<and> c \<in> set ?YS
                   then at_ix mapdata (b + c * ?W) else at3 g a b c)"
    by blast
  have mem: "(b \<in> set ?XS \<and> c \<in> set ?YS) = in_bounds s b c" for b c
    by (simp only: set_upto_int in_bounds_def; auto)
  have "Set2DMapforAddLev s mapdata lev = Some (True, s\<lparr>AddLevelGrid2D := Some g'\<rparr>)"
    using g g' by (simp add: Set2DMapforAddLev_def)
  moreover have "AddLevelGrid2D_at (s\<lparr>AddLevelGrid2D := Some g'\<rparr>) l x y
                = (if l = lev \<and> in_bounds s x y
                   then Some (mapdata ! nat (x + y * ?W))
                   else AddLevelGrid2D_at s l x y)" for l x y
    using rd [of l x y] g rdm [of x y] mem [of x y]
    by (auto simp: AddLevelGrid2D_at_def)
  ultimately show ?thesis by simp
qed



text \<open>Claim C7. On a well-formed object and for a level \<open>lev\<close> of it: after
  \<open>Set2DMapforAddLev\<close> with a row-major array of width times height bytes, the cost read
  back at every cell \<open>(a, b)\<close> of the grid is the entry \<open>a + b * width\<close> of the array;
  and after \<open>UpdateCostinAddLev\<close> at a cell of the grid the cost read back there is the
  new cost, while the read of every other cell of every level is what it was.\<close>

theorem map_update_round_trip:
  assumes "wf_env s" "0 \<le> lev" "lev < numofadditionalzlevs s"
  shows "(int (length mapdata) = EnvWidth_c (cfg s) * EnvHeight_c (cfg s) \<longrightarrow>
            (\<exists>s'. Set2DMapforAddLev s mapdata lev = Some (True, s')
               \<and> (\<forall>a b. in_bounds s a b \<longrightarrow>
                     GetMapCost_lev s' a b lev
                     = Some (mapdata ! nat (a + b * EnvWidth_c (cfg s))))))
       \<and> (in_bounds s x y \<longrightarrow>
            (\<exists>s'. UpdateCostinAddLev s x y newcost lev = Some (True, s')
               \<and> GetMapCost_lev s' x y lev = Some newcost
               \<and> (\<forall>l a b. (l, a, b) \<noteq> (lev, x, y) \<longrightarrow>
                     GetMapCost_lev s' a b l = GetMapCost_lev s a b l)))"
proof (intro conjI impI)
  assume "int (length mapdata) = EnvWidth_c (cfg s) * EnvHeight_c (cfg s)"
  from wf_Set2DMapforAddLev [OF assms this]
  show "\<exists>s'. Set2DMapforAddLev s mapdata lev = Some (True, s')
               \<and> (\<forall>a b. in_bounds s a b \<longrightarrow>
                     GetMapCost_lev s' a b lev
                     = Some (mapdata ! nat (a + b * EnvWidth_c (cfg s))))"
    by (auto simp: GetMapCost_lev_def)
next
  assume b: "in_bounds s x y"
  from wf_UpdateCostinAddLev [OF assms b] obtain s' where
    s': "UpdateCostinAddLev s x y newcost lev = Some (True, s')" by blast
  note u = UpdateCostinAddLev_at [OF s']
  have "GetMapCost_lev s' x y lev = Some newcost"
    by (simp add: GetMapCost_lev_def u(4))
  moreover have "\<forall>l a b. (l, a, b) \<noteq> (lev, x, y) \<longrightarrow>
                     GetMapCost_lev s' a b l = GetMapCost_lev s a b l"
    by (auto simp: GetMapCost_lev_def u(4))
  ultimately show "\<exists>s'. UpdateCostinAddLev s x y newcost lev = Some (True, s')
               \<and> GetMapCost_lev s' x y lev = Some newcost
               \<and> (\<forall>l a b. (l, a, b) \<noteq> (lev, x, y) \<longrightarrow>
                     GetMapCost_lev s' a b l = GetMapCost_lev s a b l)"
    using s' by blast
qed

theorem map_update_round_trip_witness:
  "wf_env env0 \<and> (0::int) \<le> 1 \<and> 1 < numofadditionalzlevs env0
   \<and> int (length [1, 2, 3, 4 :: u8]) = EnvWidth_c (cfg env0) * EnvHeight_c (cfg env0)
   \<and> in_bounds env0 1 0 \<and> in_bounds env0 0 1
   \<and> (\<exists>s'. Set2DMapforAddLev env0 [1, 2, 3, 4] 1 = Some (True, s')
         \<and> GetMapCost_lev s' 1 0 1 = Some 2 \<and> GetMapCost_lev s' 0 1 1 = Some 3)
   \<and> (\<exists>s'. UpdateCostinAddLev env0 1 0 9 1 = Some (True, s')
         \<and> GetMapCost_lev s' 1 0 1 = Some 9
         \<and> GetMapCost_lev s' 0 0 1 = GetMapCost_lev env0 0 0 1)"
proof -
  have h: "(0::int) \<le> 1" "1 < numofadditionalzlevs env0"
    "int (length [1, 2, 3, 4 :: u8]) = EnvWidth_c (cfg env0) * EnvHeight_c (cfg env0)"
    "in_bounds env0 1 0" "in_bounds env0 0 1"
    by (simp_all add: eval0)
  from map_update_round_trip [OF wf_env0 h(1,2), of "[1, 2, 3, 4]" 1 0 9] h
  obtain s1 s2 where
    1: "Set2DMapforAddLev env0 [1, 2, 3, 4] 1 = Some (True, s1)"
       "\<And>a b. in_bounds env0 a b \<Longrightarrow>
           GetMapCost_lev s1 a b 1 = Some ([1, 2, 3, 4] ! nat (a + b * EnvWidth_c (cfg env0)))"
    and 2: "UpdateCostinAddLev env0 1 0 9 1 = Some (True, s2)"
       "GetMapCost_lev s2 1 0 1 = Some 9"
       "\<And>l a b. (l, a, b) \<noteq> (1, 1, 0) \<Longrightarrow> GetMapCost_lev s2 a b l = GetMapCost_lev env0 a b l"
    by auto
  have "GetMapCost_lev s1 1 0 1 = Some 2" "GetMapCost_lev s1 0 1 1 = Some 3"
    using 1(2) [OF h(4)] 1(2) [OF h(5)] by (simp_all add: eval0)
  moreover have "GetMapCost_lev s2 0 0 1 = GetMapCost_lev env0 0 0 1"
    by (rule 2(3)) simp
  ultimately show ?thesis using wf_env0 h 1(1) 2(1,2) by simp
qed




subsection \<open>Setting up the levels\<close>

lemma those_map_Some:
  "\<forall>x\<in>set xs. f x = Some (g x) \<Longrightarrow> those (map f xs) = Some (map g xs)"
  by (induction xs) simp_all

lemma those_replicate_Some: "those (replicate k (Some x)) = Some (replicate k x)"
  by (induction k) simp_all

lemma map_nth_take: "n \<le> length xs \<Longrightarrow> map (\<lambda>i. xs ! i) [0..<n] = take n xs"
  by (simp add: list_eq_iff_nth_eq)

lemma read_polys:
  assumes "0 \<le> n" "n \<le> int (length ps)"
  shows "those (map (at_ix ps) (map int [0..<nat n])) = Some (take (nat n) ps)"
proof -
  have "\<forall>i\<in>set (map int [0..<nat n]). at_ix ps i = Some (ps ! nat i)"
    using assms by (auto simp: at_ix_def)
  from those_map_Some [OF this] have
    "those (map (at_ix ps) (map int [0..<nat n])) = Some (map (\<lambda>i. ps ! nat i) (map int [0..<nat n]))" .
  moreover have "map (\<lambda>i. ps ! nat i) (map int [0..<nat n]) = take (nat n) ps"
    using assms map_nth_take [of "nat n" ps] by (simp add: comp_def)
  ultimately show ?thesis by simp
qed

lemma new_grid_Some:
  assumes "0 \<le> n" "0 \<le> w" "0 \<le> h"
  shows "new_grid n w h = Some (replicate (nat n) (replicate (nat w) (replicate (nat h) 0)))"
  using assms
  by (simp add: new_grid_def new_level_def new_column_def new_array_def those_replicate_Some)

lemma init_action_Some:
  assumes "wf_ActionsV (cfg s)" "0 \<le> tind" "tind < NAVXYTHETALAT_THETADIRS (cfg s)"
    "0 \<le> a" "a < actionwidth (cfg s)"
  shows "init_action sweep s polys tind a = Some (info_of sweep s polys tind a)"
proof -
  from assms have t: "nat tind < length (ActionsV (cfg s))"
    by (auto simp: wf_ActionsV_def nat_less_iff)
  with assms have "int (length (ActionsV (cfg s) ! nat tind)) = actionwidth (cfg s)"
    by (simp add: wf_ActionsV_def list_all_length)
  with assms t show ?thesis
    by (auto simp: init_action_def info_of_def at_ix_def nat_less_iff)
qed

lemma init_actions_Some:
  assumes "wf_ActionsV (cfg s)"
  shows "init_actions sweep s polys
     = Some (map (\<lambda>tind. map (info_of sweep s polys tind) (map int [0..<nat (actionwidth (cfg s))]))
               (map int [0..<nat (NAVXYTHETALAT_THETADIRS (cfg s))]))"
proof -
  from assms have nn: "0 \<le> NAVXYTHETALAT_THETADIRS (cfg s)"
    by (auto simp: wf_ActionsV_def)
  let ?as = "map int [0..<nat (actionwidth (cfg s))]"
  have row: "(if actionwidth (cfg s) < 0 then None
              else those (map (init_action sweep s polys tind) ?as))
           = Some (map (info_of sweep s polys tind) ?as)"
    if "tind \<in> set (map int [0..<nat (NAVXYTHETALAT_THETADIRS (cfg s))])" for tind
  proof (cases "actionwidth (cfg s) < 0")
    case True
    from that have "0 \<le> tind" "tind < NAVXYTHETALAT_THETADIRS (cfg s)"
      by (simp_all only: set_upto_int)
    with assms have "nat tind < length (ActionsV (cfg s))"
      by (auto simp: wf_ActionsV_def nat_less_iff)
    with assms have "int (length (ActionsV (cfg s) ! nat tind)) = actionwidth (cfg s)"
      by (simp add: wf_ActionsV_def list_all_length)
    with True show ?thesis by simp
  next
    case False
    from that have t: "0 \<le> tind" "tind < NAVXYTHETALAT_THETADIRS (cfg s)"
      by (simp_all only: set_upto_int)
    have "\<forall>a\<in>set ?as. init_action sweep s polys tind a = Some (info_of sweep s polys tind a)"
    proof
      fix a assume "a \<in> set ?as"
      then have "0 \<le> a" "a < actionwidth (cfg s)" by (simp_all only: set_upto_int)
      with assms t show "init_action sweep s polys tind a = Some (info_of sweep s polys tind a)"
        by (simp add: init_action_Some)
    qed
    from those_map_Some [OF this] False show ?thesis by simp
  qed
  then have "\<forall>tind\<in>set (map int [0..<nat (NAVXYTHETALAT_THETADIRS (cfg s))]).
       (if actionwidth (cfg s) < 0 then None
              else those (map (init_action sweep s polys tind) ?as))
           = Some (map (info_of sweep s polys tind) ?as)" by blast
  from those_map_Some [OF this] nn show ?thesis
    by (simp add: init_actions_def)
qed

lemma wf_ActionsV_cfg0: "wf_ActionsV cfg0"
  by (simp add: wf_ActionsV_def cfg0_simps)

lemmas init0 = InitializeAdditionalLevels_def init_actions_def init_action_def new_grid_def
  new_level_def new_column_def new_array_def polys0_def sweep0_def zeros0_def
  EnvironmentNAVXYTHETAMLEVLAT_def at_ix_def cfg0_simps upt_conv_Cons eval_nat_numeral

text \<open>Claim C8, as amended. Called with a number of levels that is not negative and with
  at least as many footprints, \<open>InitializeAdditionalLevels\<close> returns true on every object,
  whether its levels are already set up or not: it sets the number of levels, stores
  the first footprints of the list, and allocates that many grids of the width and
  height of the base grid with every cell 0. The function has no test for a second
  call and none for the length of the list of footprints.\<close>

theorem InitializeAdditionalLevels_result:
  assumes "0 \<le> n" "n \<le> int (length perimeterptsV)"
    "0 \<le> EnvWidth_c (cfg s)" "0 \<le> EnvHeight_c (cfg s)" "wf_ActionsV (cfg s)"
  shows "\<exists>s'. InitializeAdditionalLevels sweep s n perimeterptsV = Some (True, s')
     \<and> cfg s' = cfg s \<and> numofadditionalzlevs s' = n
     \<and> AddLevelFootprintPolygonV s' = Some (take (nat n) perimeterptsV)
     \<and> AddLevelGrid2D s'
         = Some (replicate (nat n) (replicate (nat (EnvWidth_c (cfg s)))
                  (replicate (nat (EnvHeight_c (cfg s))) 0)))
     \<and> wf_levels s'"
proof -
  let ?polys = "take (nat n) perimeterptsV"
  let ?tab = "map (\<lambda>tind. map (info_of sweep s ?polys tind) (map int [0..<nat (actionwidth (cfg s))]))
               (map int [0..<nat (NAVXYTHETALAT_THETADIRS (cfg s))])"
  let ?g = "replicate (nat n) (replicate (nat (EnvWidth_c (cfg s)))
                  (replicate (nat (EnvHeight_c (cfg s))) (0::u8)))"
  let ?s' = "s\<lparr> numofadditionalzlevs := n, AddLevelFootprintPolygonV := Some ?polys,
                AdditionalInfoinActionsV := Some ?tab, AddLevelGrid2D := Some ?g \<rparr>"
  have r: "InitializeAdditionalLevels sweep s n perimeterptsV = Some (True, ?s')"
    using assms
    by (simp add: InitializeAdditionalLevels_def read_polys init_actions_Some new_grid_Some
          del: map_map)
  from assms(5) have nn: "0 \<le> NAVXYTHETALAT_THETADIRS (cfg s)"
    by (auto simp: wf_ActionsV_def)
  have aw: "0 \<le> actionwidth (cfg s)" if "0 < NAVXYTHETALAT_THETADIRS (cfg s)"
  proof -
    from that assms(5) have "0 < length (ActionsV (cfg s))" by (auto simp: wf_ActionsV_def)
    with assms(5) have "int (length (ActionsV (cfg s) ! 0)) = actionwidth (cfg s)"
      by (simp add: wf_ActionsV_def list_all_length)
    then show ?thesis by simp
  qed
  have "wf_levels ?s'"
    using assms nn aw
    by (auto simp: wf_levels_def wf_grid2D_def list_all_iff info_of_def)
  with r show ?thesis by simp
qed

theorem InitializeAdditionalLevels_result_witness:
  "(0::int) \<le> 2 \<and> 2 \<le> int (length polys0) \<and> 0 \<le> EnvWidth_c (cfg env0)
 \<and> 0 \<le> EnvHeight_c (cfg env0) \<and> wf_ActionsV (cfg env0)
 \<and> (\<exists>s'. InitializeAdditionalLevels sweep0 env0 2 polys0 = Some (True, s')
       \<and> numofadditionalzlevs s' = 2 \<and> AddLevelFootprintPolygonV s' = Some polys0
       \<and> AddLevelGrid2D s' = Some zeros0)"
proof -
  have h: "(0::int) \<le> 2" "2 \<le> int (length polys0)" "0 \<le> EnvWidth_c (cfg env0)"
    "0 \<le> EnvHeight_c (cfg env0)" "wf_ActionsV (cfg env0)"
    by (simp_all add: polys0_def env0_simps cfg0_simps wf_ActionsV_cfg0)
  from InitializeAdditionalLevels_result [OF h, of sweep0] h show ?thesis
    by (auto simp: env0_simps cfg0_simps polys0_def zeros0_def eval_nat_numeral)
qed

text \<open>Claim C8 as stated fails: the first call on a newly constructed object gives the
  small environment with empty grids, and a second call on that object, without any
  teardown, returns true again.\<close>

theorem InitializeAdditionalLevels_twice_counterexample:
  "InitializeAdditionalLevels sweep0 (EnvironmentNAVXYTHETAMLEVLAT cfg0) 2 polys0
     = Some (True, env0\<lparr>AddLevelGrid2D := Some zeros0\<rparr>)
 \<and> map_option fst
     (InitializeAdditionalLevels sweep0 (env0\<lparr>AddLevelGrid2D := Some zeros0\<rparr>) 2 polys0)
     = Some True"
proof -
  have "InitializeAdditionalLevels sweep0 (EnvironmentNAVXYTHETAMLEVLAT cfg0) 2 polys0
     = Some (True, env0\<lparr>AddLevelGrid2D := Some zeros0\<rparr>)"
    by (simp add: init0) (simp add: env0_def act0_def)
  moreover have "map_option fst
     (InitializeAdditionalLevels sweep0 (env0\<lparr>AddLevelGrid2D := Some zeros0\<rparr>) 2 polys0)
     = Some True"
    by (simp add: init0 env0_simps)
  ultimately show ?thesis by simp
qed

subsection \<open>The scan of the intermediate cells\<close>

lemma fold_max_init: "fold max xs (m::u8) = max m (fold max xs 0)"
proof (induction xs arbitrary: m)
  case Nil
  then show ?case by (simp add: max_def)
next
  case (Cons x xs)
  have "fold max (x # xs) m = max (max x m) (fold max xs 0)"
    using Cons.IH [of "max x m"] by simp
  also have "\<dots> = max m (max x (fold max xs 0))" by (simp add: max.assoc max.left_commute)
  also have "max x (fold max xs 0) = fold max (x # xs) 0"
  proof -
    have "max x (0::u8) = x" by (simp add: max_def)
    then show ?thesis using Cons.IH [of x] by simp
  qed
  finally show ?case .
qed

lemma maxObservedCost_snoc:
  "maxObservedCost s SX SY (pre @ [c])
   = fold max (cell_costs s SX SY c) (maxObservedCost s SX SY pre)"
  by (simp add: maxObservedCost_def observedCosts_def)

lemma maxObservedAt_snoc:
  "maxObservedAt s SX SY l (pre @ [c])
   = max (maxObservedAt s SX SY l pre) (levelCost s l (fst c + SX) (fst (snd c) + SY))"
  by (simp add: maxObservedAt_def max.commute)

lemma interm_levels_eq:
  assumes "\<forall>l\<in>set ls. AddLevelGrid2D_at s l x y = Some (levelCost s l x y)
              \<and> 0 \<le> l \<and> l < int (length e)"
  shows "\<exists>e'. interm_levels s x y ls (m, e)
             = Some (fold max (map (\<lambda>l. levelCost s l x y) ls) m, e')
           \<and> length e' = length e
           \<and> (\<forall>k<length e. e' ! k = (if int k \<in> set ls
                                      then max (e ! k) (levelCost s (int k) x y) else e ! k))"
  using assms
proof (induction ls arbitrary: m e)
  case Nil
  then show ?case by simp
next
  case (Cons l ls)
  let ?c = "levelCost s l x y"
  let ?e1 = "e[nat l := max (e ! nat l) ?c]"
  from Cons.prems have l: "AddLevelGrid2D_at s l x y = Some ?c" "0 \<le> l" "l < int (length e)"
    by simp_all
  have "\<forall>l\<in>set ls. AddLevelGrid2D_at s l x y = Some (levelCost s l x y)
              \<and> 0 \<le> l \<and> l < int (length ?e1)"
    using Cons.prems by simp
  from Cons.IH [OF this, of "max m ?c"] obtain e' where
    e': "interm_levels s x y ls (max m ?c, ?e1)
             = Some (fold max (map (\<lambda>l. levelCost s l x y) ls) (max m ?c), e')"
      "length e' = length e"
      "\<And>k. k < length e \<Longrightarrow> e' ! k = (if int k \<in> set ls
                                      then max (?e1 ! k) (levelCost s (int k) x y) else ?e1 ! k)"
    by auto
  have 1: "interm_levels s x y (l # ls) (m, e)
             = Some (fold max (map (\<lambda>l. levelCost s l x y) (l # ls)) m, e')"
    using l e'(1) by (simp add: at_ix_def put_ix_def max.commute)
  have 2: "e' ! k = (if int k \<in> set (l # ls)
                      then max (e ! k) (levelCost s (int k) x y) else e ! k)"
    if "k < length e" for k
  proof (cases "int k = l")
    case True
    then have "nat l = k" by simp
    with that True show ?thesis by (simp add: e'(3) max.assoc)
  next
    case False
    with l(2) have "nat l \<noteq> k" by auto
    with that False show ?thesis by (simp add: e'(3))
  qed
  from 1 2 e'(2) show ?case by blast
qed

lemma wf_interm_levels:
  assumes "wf_env s" "in_bounds s x y" "length e = nat (numofadditionalzlevs s)"
  shows "\<exists>e'. interm_levels s x y (levels s) (m, e)
             = Some (fold max (map (\<lambda>l. levelCost s l x y) (levels s)) m, e')
           \<and> length e' = length e
           \<and> (\<forall>l\<in>set (levels s). e' ! nat l = max (e ! nat l) (levelCost s l x y))"
proof -
  have "\<forall>l\<in>set (levels s). AddLevelGrid2D_at s l x y = Some (levelCost s l x y)
              \<and> 0 \<le> l \<and> l < int (length e)"
    using assms by (simp add: set_levels wf_AddLevelGrid2D_at)
  from interm_levels_eq [OF this, of m] obtain e' where
    e': "interm_levels s x y (levels s) (m, e)
             = Some (fold max (map (\<lambda>l. levelCost s l x y) (levels s)) m, e')"
      "length e' = length e"
      "\<And>k. k < length e \<Longrightarrow> e' ! k = (if int k \<in> set (levels s)
                                      then max (e ! k) (levelCost s (int k) x y) else e ! k)"
    by auto
  have "e' ! nat l = max (e ! nat l) (levelCost s l x y)" if "l \<in> set (levels s)" for l
  proof -
    from that have "0 \<le> l" "l < numofadditionalzlevs s" by (simp_all add: set_levels)
    with assms(3) have "nat l < length e" by simp
    from e'(3) [OF this] that \<open>0 \<le> l\<close> show ?thesis by simp
  qed
  with e'(1,2) show ?thesis by blast
qed


lemma interm_cells_inv:
  assumes "wf_env s" "length e = nat (numofadditionalzlevs s)"
    and "m = maxObservedCost s SX SY pre"
    and "\<forall>l\<in>set (levels s). e ! nat l = maxObservedAt s SX SY l pre"
    and "\<forall>j<length pre. \<not> scan_stops s SX SY (pre @ cs) j"
  shows "\<exists>i m' e'. interm_cells s SX SY cs (length pre) (m, e) = Some (i, m', e')
     \<and> i \<le> length (pre @ cs)
     \<and> (\<forall>j<i. \<not> scan_stops s SX SY (pre @ cs) j)
     \<and> (i < length (pre @ cs) \<longrightarrow> scan_stops s SX SY (pre @ cs) i \<and> m' = obsthresh (cfg s))
     \<and> (i = length (pre @ cs) \<longrightarrow> m' = maxObservedCost s SX SY (pre @ cs))
     \<and> length e' = nat (numofadditionalzlevs s)
     \<and> (\<forall>l\<in>set (levels s). e' ! nat l
           = maxObservedAt s SX SY l (take (cells_read s SX SY (pre @ cs) i) (pre @ cs)))"
  using assms(2-5)
proof (induction cs arbitrary: pre m e)
  case Nil
  then show ?case by (simp add: cells_read_def)
next
  case (Cons c cs)
  let ?cells = "pre @ c # cs"
  let ?x = "fst c + SX" and ?y = "fst (snd c) + SY"
  have ci: "?cells ! length pre = c" by simp
  have tk: "take (Suc (length pre)) ?cells = pre @ [c]" by simp
  have len: "length pre < length ?cells" by simp
  show ?case
  proof (cases "in_bounds s ?x ?y")
    case False
    then have r: "interm_cells s SX SY (c # cs) (length pre) (m, e)
        = Some (length pre, obsthresh (cfg s), e)"
      by (auto simp: in_bounds_def)
    have st: "scan_stops s SX SY ?cells (length pre)"
      using False by (simp add: scan_stops_def)
    have cr: "cells_read s SX SY ?cells (length pre) = length pre"
      using False by (simp add: cells_read_def)
    have "\<forall>l\<in>set (levels s). e ! nat l
           = maxObservedAt s SX SY l (take (cells_read s SX SY ?cells (length pre)) ?cells)"
      using Cons.prems(3) by (simp add: cr)
    with r st Cons.prems(1,4) len show ?thesis by auto
  next
    case True
    from wf_interm_levels [OF assms(1) True Cons.prems(1), of m] obtain e1 where
      e1: "interm_levels s ?x ?y (levels s) (m, e)
             = Some (fold max (map (\<lambda>l. levelCost s l ?x ?y) (levels s)) m, e1)"
        "length e1 = length e"
        "\<forall>l\<in>set (levels s). e1 ! nat l = max (e ! nat l) (levelCost s l ?x ?y)"
      by blast
    define m1 where "m1 = fold max (map (\<lambda>l. levelCost s l ?x ?y) (levels s)) m"
    have m1: "m1 = maxObservedCost s SX SY (pre @ [c])"
      by (simp add: m1_def maxObservedCost_snoc cell_costs_def Cons.prems(2))
    have e1': "\<forall>l\<in>set (levels s). e1 ! nat l = maxObservedAt s SX SY l (pre @ [c])"
      using e1(3) Cons.prems(3) by (simp add: maxObservedAt_snoc)
    have nb: "\<not> (?x < 0 \<or> ?x \<ge> EnvWidth_c (cfg s) \<or> ?y < 0 \<or> ?y \<ge> EnvHeight_c (cfg s))"
      using True by (auto simp: in_bounds_def)
    show ?thesis
    proof (cases "cost_inscribed_thresh (cfg s) \<le> m1")
      case True
      have r: "interm_cells s SX SY (c # cs) (length pre) (m, e)
          = Some (length pre, obsthresh (cfg s), e1)"
        using nb e1(1) True by (simp add: m1_def)
      have st: "scan_stops s SX SY ?cells (length pre)"
        using True by (simp add: scan_stops_def m1)
      have cr: "cells_read s SX SY ?cells (length pre) = Suc (length pre)"
        using \<open>in_bounds s ?x ?y\<close> by (simp add: cells_read_def)
      have "\<forall>l\<in>set (levels s). e1 ! nat l
           = maxObservedAt s SX SY l (take (cells_read s SX SY ?cells (length pre)) ?cells)"
        using e1' by (simp add: cr)
      with r st Cons.prems(1,4) len e1(2) show ?thesis by auto
    next
      case False
      have r: "interm_cells s SX SY (c # cs) (length pre) (m, e)
          = interm_cells s SX SY cs (length (pre @ [c])) (m1, e1)"
        using nb e1(1) False by (simp add: m1_def)
      have nst: "\<not> scan_stops s SX SY ((pre @ [c]) @ cs) (length pre)"
        using False \<open>in_bounds s ?x ?y\<close> by (simp add: scan_stops_def m1 not_le)
      have "\<forall>j<length (pre @ [c]). \<not> scan_stops s SX SY ((pre @ [c]) @ cs) j"
      proof (intro allI impI)
        fix j assume "j < length (pre @ [c])"
        then have "j < length pre \<or> j = length pre" by auto
        then show "\<not> scan_stops s SX SY ((pre @ [c]) @ cs) j"
          using Cons.prems(4) nst by auto
      qed
      moreover have "length e1 = nat (numofadditionalzlevs s)"
        using e1(2) Cons.prems(1) by simp
      ultimately have "\<exists>i m' e'.
          interm_cells s SX SY cs (length (pre @ [c])) (m1, e1) = Some (i, m', e')
        \<and> i \<le> length ((pre @ [c]) @ cs)
        \<and> (\<forall>j<i. \<not> scan_stops s SX SY ((pre @ [c]) @ cs) j)
        \<and> (i < length ((pre @ [c]) @ cs) \<longrightarrow>
              scan_stops s SX SY ((pre @ [c]) @ cs) i \<and> m' = obsthresh (cfg s))
        \<and> (i = length ((pre @ [c]) @ cs) \<longrightarrow>
              m' = maxObservedCost s SX SY ((pre @ [c]) @ cs))
        \<and> length e' = nat (numofadditionalzlevs s)
        \<and> (\<forall>l\<in>set (levels s). e' ! nat l
             = maxObservedAt s SX SY l
                 (take (cells_read s SX SY ((pre @ [c]) @ cs) i) ((pre @ [c]) @ cs)))"
        using m1 e1' by (intro Cons.IH)
      then show ?thesis
        unfolding r by (simp only: append_assoc append_Cons append_Nil)
    qed
  qed
qed


lemma footprint_levels_blocked:
  "\<not> m < obsthresh (cfg s) \<Longrightarrow> footprint_levels s SX SY action each ls m = Some m"
  by (cases ls) simp_all

text \<open>Claim C3, as amended. The scan of the intermediate cells of an action, each
  translated by the source cell, keeps the maximum of the costs read so far on each
  level and over all levels. It ends before the last cell exactly when some cell ends
  the scan, that is, lies outside the grid or brings the overall maximum to
  \<open>cost_inscribed_thresh\<close> or above; it then stops at the first such cell, sets the
  overall maximum to \<open>obsthresh\<close>, and the footprint check leaves it there, so that the
  transition is blocked. Otherwise the overall maximum is the maximum over all cells
  and levels.\<close>

theorem broad_phase_scan:
  assumes "wf_env s"
  shows "\<exists>i m each.
       interm_cells s SX SY cells 0 (0, replicate (nat (numofadditionalzlevs s)) 0)
         = Some (i, m, each)
     \<and> i \<le> length cells
     \<and> (i < length cells \<longleftrightarrow> (\<exists>j<length cells. scan_stops s SX SY cells j))
     \<and> (\<forall>j<i. \<not> scan_stops s SX SY cells j)
     \<and> (i < length cells \<longrightarrow> scan_stops s SX SY cells i \<and> m = obsthresh (cfg s)
            \<and> footprint_levels s SX SY action each (levels s) m = Some (obsthresh (cfg s)))
     \<and> (i = length cells \<longrightarrow> m = maxObservedCost s SX SY cells)
     \<and> length each = nat (numofadditionalzlevs s)
     \<and> (\<forall>l\<in>set (levels s). each ! nat l
           = maxObservedAt s SX SY l (take (cells_read s SX SY cells i) cells))"
proof -
  let ?e = "replicate (nat (numofadditionalzlevs s)) (0::u8)"
  have 1: "length ?e = nat (numofadditionalzlevs s)" by simp
  have 2: "(0::u8) = maxObservedCost s SX SY []"
    by (simp add: maxObservedCost_def observedCosts_def)
  have 3: "\<forall>l\<in>set (levels s). ?e ! nat l = maxObservedAt s SX SY l []"
    by (simp add: maxObservedAt_def set_levels)
  have 4: "\<forall>j<length ([]::EnvNAVXYTHETALAT3Dcell_t list). \<not> scan_stops s SX SY ([] @ cells) j"
    by simp
  from interm_cells_inv [OF assms 1 2 3 4] obtain i m each where
    r: "interm_cells s SX SY cells 0 (0, ?e) = Some (i, m, each)"
      "i \<le> length cells" "\<forall>j<i. \<not> scan_stops s SX SY cells j"
      "i < length cells \<longrightarrow> scan_stops s SX SY cells i \<and> m = obsthresh (cfg s)"
      "i = length cells \<longrightarrow> m = maxObservedCost s SX SY cells"
      "length each = nat (numofadditionalzlevs s)"
      "\<forall>l\<in>set (levels s). each ! nat l
           = maxObservedAt s SX SY l (take (cells_read s SX SY cells i) cells)"
    by auto
  have iff: "i < length cells \<longleftrightarrow> (\<exists>j<length cells. scan_stops s SX SY cells j)"
  proof
    assume "i < length cells"
    with r(4) show "\<exists>j<length cells. scan_stops s SX SY cells j" by blast
  next
    assume "\<exists>j<length cells. scan_stops s SX SY cells j"
    then obtain j where j: "j < length cells" "scan_stops s SX SY cells j" by blast
    with r(3) have "\<not> j < i" by blast
    with j(1) show "i < length cells" by simp
  qed
  have fp: "footprint_levels s SX SY action each (levels s) m = Some (obsthresh (cfg s))"
    if "i < length cells"
  proof -
    from that r(4) have "m = obsthresh (cfg s)" by simp
    then show ?thesis by (simp add: footprint_levels_blocked)
  qed
  from r iff fp show ?thesis by blast
qed

theorem broad_phase_scan_witness:
  "wf_env env1 \<and> scan_stops env1 0 0 (interm3DcellsV act1) 1
 \<and> (\<exists>i m each. interm_cells env1 0 0 (interm3DcellsV act1) 0
                    (0, replicate (nat (numofadditionalzlevs env1)) 0) = Some (i, m, each)
       \<and> i < length (interm3DcellsV act1) \<and> m = obsthresh (cfg env1)
       \<and> footprint_levels env1 0 0 act1 each (levels env1) m = Some (obsthresh (cfg env1)))"
proof -
  have st: "scan_stops env1 0 0 (interm3DcellsV act1) 1"
    by (simp add: scan_stops_def cost1 eval1)
  then have "\<exists>j<length (interm3DcellsV act1). scan_stops env1 0 0 (interm3DcellsV act1) j"
    by (intro exI [of _ 1]) (simp add: act_simps)
  with broad_phase_scan [OF wf_env1, of 0 0 "interm3DcellsV act1" act1] wf_env1 st
  show ?thesis by blast
qed

text \<open>Claim C3 as stated fails: with \<open>cost_inscribed_thresh\<close> 253 and \<open>obsthresh\<close> 254, a
  cost of 253 at the second of three intermediate cells ends the scan there, and the
  action costs \<open>INFINITECOST\<close>, although the maximum of the costs along the action is
  253 and never reaches \<open>obsthresh\<close>.\<close>

theorem broad_phase_obsthresh_counterexample:
  "interm_cells env1 0 0 (interm3DcellsV act1) 0 (0, [0, 0]) = Some (1, 254, [3, 253])
 \<and> length (interm3DcellsV act1) = 3
 \<and> maxObservedCost env1 0 0 (interm3DcellsV act1) = 253
 \<and> obsthresh (cfg env1) = 254
 \<and> GetActionCostacrossAddLevels env1 0 0 0 act1 = Some (INFINITECOST (cfg env1))"
proof -
  have 1: "interm_cells env1 0 0 (interm3DcellsV act1) 0 (0, [0, 0]) = Some (1, 254, [3, 253])"
    by (simp add: eval1)
  have 2: "maxObservedCost env1 0 0 (interm3DcellsV act1) = 253"
    by (simp add: cost1 eval1)
  have 3: "IsValidCell env1 0 0 = Some True" "IsValidCell env1 1 0 = Some True"
    by (simp_all add: IsValidCell_def base_IsValidCell_def eval1)
  have "GetActionCostacrossAddLevels env1 0 0 0 act1 = Some (INFINITECOST (cfg env1))"
    by (simp add: GetActionCostacrossAddLevels_def 3 new_array_def eval1 eval_nat_numeral)
  with 1 2 show ?thesis by (simp add: eval1)
qed

subsection \<open>The footprint check and the cost of an action\<close>

lemma wf_interm_cells:
  assumes "wf_env s"
  shows "\<exists>i m each.
       interm_cells s SX SY cells 0 (0, replicate (nat (numofadditionalzlevs s)) 0)
         = Some (i, m, each)
     \<and> (i < length cells \<longrightarrow> m = obsthresh (cfg s))
     \<and> (\<not> i < length cells \<longrightarrow> m = maxObservedCost s SX SY cells)
     \<and> length each = nat (numofadditionalzlevs s)"
proof -
  let ?e = "replicate (nat (numofadditionalzlevs s)) (0::u8)"
  have 1: "length ?e = nat (numofadditionalzlevs s)" by simp
  have 2: "(0::u8) = maxObservedCost s SX SY []"
    by (simp add: maxObservedCost_def observedCosts_def)
  have 3: "\<forall>l\<in>set (levels s). ?e ! nat l = maxObservedAt s SX SY l []"
    by (simp add: maxObservedAt_def set_levels)
  have 4: "\<forall>j<length ([]::EnvNAVXYTHETALAT3Dcell_t list). \<not> scan_stops s SX SY ([] @ cells) j"
    by simp
  from interm_cells_inv [OF assms 1 2 3 4] obtain i m each where
    r: "interm_cells s SX SY cells 0 (0, ?e) = Some (i, m, each)"
      "i \<le> length cells"
      "i < length cells \<longrightarrow> scan_stops s SX SY cells i \<and> m = obsthresh (cfg s)"
      "i = length cells \<longrightarrow> m = maxObservedCost s SX SY cells"
      "length each = nat (numofadditionalzlevs s)"
    by auto
  from r(2) have "\<not> i < length cells \<longrightarrow> i = length cells" by simp
  with r show ?thesis by blast
qed

lemma wf_IsValidCell_lev:
  assumes "wf_env s" "0 \<le> lev" "lev < numofadditionalzlevs s"
  shows "IsValidCell_lev s X Y lev
       = Some (in_bounds s X Y \<and> levelCost s lev X Y < obsthresh (cfg s))"
proof (cases "in_bounds s X Y")
  case True
  from wf_AddLevelGrid2D_at [OF assms True] True assms(3) show ?thesis
    by (simp add: IsValidCell_lev_def in_bounds_def)
next
  case False
  then show ?thesis by (auto simp: IsValidCell_lev_def in_bounds_def)
qed

lemma wf_footprint_cells:
  assumes "wf_env s" "0 \<le> lev" "lev < numofadditionalzlevs s"
  shows "\<exists>m'. footprint_cells s SX SY lev cells m = Some m'
           \<and> (m' = m \<or> m' = obsthresh (cfg s))
           \<and> ((\<exists>cell\<in>set cells. IsValidCell_lev s (fst cell + SX) (snd cell + SY) lev = Some False)
                \<longrightarrow> m' = obsthresh (cfg s))"
proof (induction cells)
  case Nil
  then show ?case by simp
next
  case (Cons c cs)
  show ?case
  proof (cases "in_bounds s (fst c + SX) (snd c + SY)
                 \<and> levelCost s lev (fst c + SX) (snd c + SY) < obsthresh (cfg s)")
    case True
    with Cons show ?thesis by (simp add: wf_IsValidCell_lev [OF assms])
  next
    case False
    then show ?thesis by (simp add: wf_IsValidCell_lev [OF assms])
  qed
qed

lemma wf_intersectingcells_at:
  assumes "wf_levels s" "wf_action s a" "0 \<le> lev" "lev < numofadditionalzlevs s"
  shows "\<exists>cells. intersectingcells_at s (starttheta a) (aind a) lev = Some cells"
proof -
  from assms(1) obtain tab where tab: "AdditionalInfoinActionsV s = Some tab"
    "int (length tab) = NAVXYTHETALAT_THETADIRS (cfg s)"
    "list_all (\<lambda>row. int (length row) = actionwidth (cfg s)
               \<and> list_all (\<lambda>info. int (length (intersectingcellsV info)) = numofadditionalzlevs s) row) tab"
    by (auto simp: wf_levels_def split: option.splits)
  from assms(2) tab(2) have t: "nat (starttheta a) < length tab"
    by (auto simp: wf_action_def nat_less_iff)
  with tab(3) have row: "int (length (tab ! nat (starttheta a))) = actionwidth (cfg s)"
    "list_all (\<lambda>info. int (length (intersectingcellsV info)) = numofadditionalzlevs s)
       (tab ! nat (starttheta a))"
    by (simp_all add: list_all_length)
  from assms(2) row(1) have ai: "nat (aind a) < length (tab ! nat (starttheta a))"
    by (auto simp: wf_action_def nat_less_iff)
  with row(2) have
    "int (length (intersectingcellsV (tab ! nat (starttheta a) ! nat (aind a)))) = numofadditionalzlevs s"
    by (simp add: list_all_length)
  with assms(3,4) have
    l: "nat lev < length (intersectingcellsV (tab ! nat (starttheta a) ! nat (aind a)))"
    by (auto simp: nat_less_iff)
  from assms(2) have nn: "0 \<le> starttheta a" "0 \<le> aind a" by (simp_all add: wf_action_def)
  from tab(1) t ai l nn assms(3) show ?thesis
    by (auto simp: intersectingcells_at_def at_ix_def nat_less_iff)
qed

lemma wf_footprint_levels:
  assumes "wf_env s" "wf_levels s" "wf_action s a" "length each = nat (numofadditionalzlevs s)"
    "set ls \<subseteq> set (levels s)"
  shows "\<exists>m'. footprint_levels s SX SY a each ls m = Some m'
           \<and> (m' = m \<or> m' = obsthresh (cfg s))
           \<and> ((\<exists>lev\<in>set ls. blocking_level s SX SY a each lev) \<longrightarrow> obsthresh (cfg s) \<le> m')"
  using assms(5)
proof (induction ls arbitrary: m)
  case Nil
  then show ?case by simp
next
  case (Cons l ls)
  from Cons.prems have l: "0 \<le> l" "l < numofadditionalzlevs s" and sub: "set ls \<subseteq> set (levels s)"
    by (simp_all add: set_levels)
  show ?case
  proof (cases "m < obsthresh (cfg s)")
    case False
    then show ?thesis by (simp add: not_less)
  next
    case True
    from assms(2) obtain polys where polys: "AddLevelFootprintPolygonV s = Some polys"
      "int (length polys) = numofadditionalzlevs s"
      by (auto simp: wf_levels_def split: option.splits)
    from l polys(2) have pl: "at_ix polys l = Some (polys ! nat l)" by (simp add: at_ix_def)
    from l assms(4) have el: "at_ix each l = Some (each ! nat l)" by (simp add: at_ix_def)
    from wf_intersectingcells_at [OF assms(2,3) l] obtain cells where
      cells: "intersectingcells_at s (starttheta a) (aind a) l = Some cells" by blast
    show ?thesis
    proof (cases "length (polys ! nat l) > 1
                  \<and> cost_possibly_circumscribed_thresh (cfg s) \<le> uint (each ! nat l)")
      case False
      then have nb: "\<not> blocking_level s SX SY a each l"
        by (auto simp: blocking_level_def polys(1))
      from False True polys(1) pl el have
        "footprint_levels s SX SY a each (l # ls) m = footprint_levels s SX SY a each ls m"
        by auto
      with Cons.IH [OF sub, of m] nb show ?thesis by auto
    next
      case chk: True
      from wf_footprint_cells [OF assms(1) l, of SX SY cells m] obtain m1 where
        m1: "footprint_cells s SX SY l cells m = Some m1" "m1 = m \<or> m1 = obsthresh (cfg s)"
          "(\<exists>cell\<in>set cells. IsValidCell_lev s (fst cell + SX) (snd cell + SY) l = Some False)
             \<longrightarrow> m1 = obsthresh (cfg s)"
        by blast
      from chk True polys(1) pl el cells m1(1) have r:
        "footprint_levels s SX SY a each (l # ls) m = footprint_levels s SX SY a each ls m1"
        by simp
      from Cons.IH [OF sub, of m1] obtain m' where
        m': "footprint_levels s SX SY a each ls m1 = Some m'"
          "m' = m1 \<or> m' = obsthresh (cfg s)"
          "(\<exists>lev\<in>set ls. blocking_level s SX SY a each lev) \<longrightarrow> obsthresh (cfg s) \<le> m'"
        by blast
      have "obsthresh (cfg s) \<le> m'" if "blocking_level s SX SY a each l"
      proof -
        from that cells m1(3) have "m1 = obsthresh (cfg s)"
          by (auto simp: blocking_level_def)
        with m'(2) show ?thesis by auto
      qed
      with r m' m1(2) show ?thesis by auto
    qed
  qed
qed

lemma wf_dest_inscribed_levels:
  assumes "wf_env s" "in_bounds s x y" "set ls \<subseteq> set (levels s)"
  shows "\<exists>b. dest_inscribed_levels s x y ls = Some b"
  using assms(3)
proof (induction ls)
  case Nil
  show ?case by (intro exI [of _ False]) simp
next
  case (Cons l ls)
  then have "0 \<le> l" "l < numofadditionalzlevs s" by (simp_all add: set_levels)
  from wf_AddLevelGrid2D_at [OF assms(1) this assms(2)] Cons show ?case by auto
qed


lemma wf_GetActionCostacrossAddLevels:
  assumes "wf_env s" "wf_action s a" "0 < numofadditionalzlevs s"
  shows "\<exists>i m each m' r.
       interm_cells s SX SY (interm3DcellsV a) 0 (0, replicate (nat (numofadditionalzlevs s)) 0)
         = Some (i, m, each)
     \<and> footprint_levels s SX SY a each (levels s) m = Some m'
     \<and> (m' = m \<or> m' = obsthresh (cfg s))
     \<and> ((\<exists>lev\<in>set (levels s). blocking_level s SX SY a each lev) \<longrightarrow> obsthresh (cfg s) \<le> m')
     \<and> GetActionCostacrossAddLevels s SX SY th a = Some r
     \<and> (obsthresh (cfg s) \<le> m' \<longrightarrow> r = INFINITECOST (cfg s))
     \<and> (r = INFINITECOST (cfg s)
          \<or> r = to_int32 (cost a * (uint (maxObservedCost s SX SY (interm3DcellsV a)) + 1)))"
proof -
  from assms have wl: "wf_levels s" by (auto simp: wf_env_def)
  from wf_interm_cells [OF assms(1), of SX SY "interm3DcellsV a"] obtain i m each where
    sc: "interm_cells s SX SY (interm3DcellsV a) 0 (0, replicate (nat (numofadditionalzlevs s)) 0)
         = Some (i, m, each)"
      "i < length (interm3DcellsV a) \<longrightarrow> m = obsthresh (cfg s)"
      "\<not> i < length (interm3DcellsV a) \<longrightarrow> m = maxObservedCost s SX SY (interm3DcellsV a)"
      "length each = nat (numofadditionalzlevs s)"
    by blast
  from wf_footprint_levels [OF assms(1) wl assms(2) sc(4) subset_refl, of SX SY m] obtain m' where
    fp: "footprint_levels s SX SY a each (levels s) m = Some m'"
      "m' = m \<or> m' = obsthresh (cfg s)"
      "(\<exists>lev\<in>set (levels s). blocking_level s SX SY a each lev) \<longrightarrow> obsthresh (cfg s) \<le> m'"
    by blast
  define r where "r = (if obsthresh (cfg s) \<le> m' then INFINITECOST (cfg s)
                       else to_int32 (cost a * (uint m' + 1)))"
  have tail: "(do { each0 \<leftarrow> new_array (numofadditionalzlevs s) 0;
     (i, maxcellcost, each) \<leftarrow> interm_cells s SX SY (interm3DcellsV a) 0 (0, each0);
     maxcellcost' \<leftarrow> footprint_levels s SX SY a each (levels s) maxcellcost;
     if maxcellcost' \<ge> obsthresh (cfg s) then Some (INFINITECOST (cfg s))
     else Some (to_int32 (cost a * (uint maxcellcost' + 1))) }) = Some r"
    using assms(3) sc(1) fp(1) by (simp add: new_array_def r_def)
  have rm: "r = INFINITECOST (cfg s)
          \<or> r = to_int32 (cost a * (uint (maxObservedCost s SX SY (interm3DcellsV a)) + 1))"
  proof (cases "obsthresh (cfg s) \<le> m'")
    case True
    then show ?thesis by (simp add: r_def)
  next
    case False
    with fp(2) have "m' = m" by auto
    with False sc(2) have "\<not> i < length (interm3DcellsV a)" by auto
    with sc(3) \<open>m' = m\<close> have "m' = maxObservedCost s SX SY (interm3DcellsV a)" by simp
    with False show ?thesis by (simp add: r_def)
  qed
  define V1 where "V1 = (in_bounds s SX SY \<and> baseCost s SX SY < obsthresh (cfg s)
           \<and> (\<forall>l\<in>set (levels s). levelCost s l SX SY < obsthresh (cfg s)))"
  define V2 where "V2 = (in_bounds s (SX + dX a) (SY + dY a)
           \<and> baseCost s (SX + dX a) (SY + dY a) < obsthresh (cfg s)
           \<and> (\<forall>l\<in>set (levels s). levelCost s l (SX + dX a) (SY + dY a) < obsthresh (cfg s)))"
  have v1: "IsValidCell s SX SY = Some V1" unfolding V1_def by (rule wf_IsValidCell [OF assms(1)])
  have v2: "IsValidCell s (SX + dX a) (SY + dY a) = Some V2"
    unfolding V2_def by (rule wf_IsValidCell [OF assms(1)])
  have "\<exists>r'. GetActionCostacrossAddLevels s SX SY th a = Some r'
          \<and> (r' = INFINITECOST (cfg s) \<or> r' = r)"
  proof (cases "V1 \<and> V2")
    case False
    then show ?thesis by (auto simp: GetActionCostacrossAddLevels_def v1 v2)
  next
    case True
    then have "in_bounds s (SX + dX a) (SY + dY a)" by (simp add: V2_def)
    from wf_dest_inscribed_levels [OF assms(1) this subset_refl] obtain b where
      b: "dest_inscribed_levels s (SX + dX a) (SY + dY a) (levels s) = Some b" by blast
    show ?thesis
    proof (cases b)
      case True
      with \<open>V1 \<and> V2\<close> b assms(3) show ?thesis
        by (simp add: GetActionCostacrossAddLevels_def v1 v2)
    next
      case False
      with \<open>V1 \<and> V2\<close> b assms(3) tail show ?thesis
        by (simp add: GetActionCostacrossAddLevels_def v1 v2)
    qed
  qed
  then obtain r' where r': "GetActionCostacrossAddLevels s SX SY th a = Some r'"
    "r' = INFINITECOST (cfg s) \<or> r' = r" by blast
  have "obsthresh (cfg s) \<le> m' \<longrightarrow> r' = INFINITECOST (cfg s)"
    using r'(2) by (auto simp: r_def)
  moreover have "r' = INFINITECOST (cfg s)
          \<or> r' = to_int32 (cost a * (uint (maxObservedCost s SX SY (interm3DcellsV a)) + 1))"
    using r'(2) rm by auto
  ultimately show ?thesis using sc(1) fp r'(1) by blast
qed

lemma GetActionCostacrossAddLevels_no_levels:
  assumes "wf_env s" "numofadditionalzlevs s = 0"
  shows "GetActionCostacrossAddLevels s SX SY th a
       = Some (if in_bounds s SX SY \<and> baseCost s SX SY < obsthresh (cfg s)
                  \<and> in_bounds s (SX + dX a) (SY + dY a)
                  \<and> baseCost s (SX + dX a) (SY + dY a) < obsthresh (cfg s)
               then 0 else INFINITECOST (cfg s))"
proof -
  from assms(2) have "levels s = []" by (simp add: levels_def)
  then show ?thesis
    using assms by (auto simp: GetActionCostacrossAddLevels_def wf_IsValidCell)
qed


lemma to_int32_id: "0 \<le> z \<Longrightarrow> z < 2 ^ 31 \<Longrightarrow> to_int32 z = z"
  by (simp add: to_int32_def)

lemma fold_max_zero: "\<forall>c\<in>set xs. c = 0 \<Longrightarrow> fold max xs (0::u8) = 0"
  by (induction xs) simp_all

lemma fold_max_eq:
  assumes "k \<in> set xs" "\<forall>c\<in>set xs. c \<le> k"
  shows "fold max xs (0::u8) = k"
proof -
  have "fold max xs 0 = Max (set (0 # xs))" by (simp only: Max.set_eq_fold)
  also have "\<dots> = k" using assms by (intro Max_eqI) auto
  finally show ?thesis .
qed

lemma replicate_nat2: "replicate (nat 2) x = [x, x]" "replicate 2 x = [x, x]"
  by (simp_all add: eval_nat_numeral)

lemma wf_new_cfg0: "wf_env (EnvironmentNAVXYTHETAMLEVLAT cfg0)"
  by (simp add: wf_env_def wf_grid2D_def EnvironmentNAVXYTHETAMLEVLAT_def cfg0_simps)

lemma new_cfg0_simps:
  "cfg (EnvironmentNAVXYTHETAMLEVLAT cfg0) = cfg0"
  "numofadditionalzlevs (EnvironmentNAVXYTHETAMLEVLAT cfg0) = 0"
  "levels (EnvironmentNAVXYTHETAMLEVLAT cfg0) = []"
  by (simp_all add: EnvironmentNAVXYTHETAMLEVLAT_def levels_def)

lemma wf_action0: "wf_action env0 act0" "wf_action env1 act1" "wf_action env2 act0"
  by (simp_all add: wf_action_def eval0 eval1)

text \<open>Claim C6, as amended. Without additional levels the cost over the additional levels
  is 0 when the source cell and the destination cell are valid, and \<open>INFINITECOST\<close> when
  one of them is not: the two validity tests come before the test for the number of
  levels. \<open>GetActionCost\<close> returns the larger of this and the cost of the base
  environment, which is the cost of the base environment whenever that is not negative
  for valid cells and \<open>INFINITECOST\<close> for invalid ones.\<close>

theorem GetActionCost_no_levels:
  assumes "wf_env s" "numofadditionalzlevs s = 0"
  shows "\<exists>v1 v2. IsValidCell s SX SY = Some v1
       \<and> IsValidCell s (SX + dX a) (SY + dY a) = Some v2
       \<and> GetActionCostacrossAddLevels s SX SY th a
           = Some (if v1 \<and> v2 then 0 else INFINITECOST (cfg s))
       \<and> GetActionCost base s SX SY th a
           = Some (max (base SX SY th a) (if v1 \<and> v2 then 0 else INFINITECOST (cfg s)))
       \<and> (v1 \<and> v2 \<and> 0 \<le> base SX SY th a
            \<longrightarrow> GetActionCost base s SX SY th a = Some (base SX SY th a))
       \<and> (\<not> (v1 \<and> v2) \<and> base SX SY th a = INFINITECOST (cfg s)
            \<longrightarrow> GetActionCost base s SX SY th a = Some (base SX SY th a))"
proof -
  from assms(2) have lv: "levels s = []" by (simp add: levels_def)
  let ?v1 = "in_bounds s SX SY \<and> baseCost s SX SY < obsthresh (cfg s)"
  let ?v2 = "in_bounds s (SX + dX a) (SY + dY a)
               \<and> baseCost s (SX + dX a) (SY + dY a) < obsthresh (cfg s)"
  have 1: "IsValidCell s SX SY = Some ?v1" "IsValidCell s (SX + dX a) (SY + dY a) = Some ?v2"
    using assms(1) by (simp_all add: wf_IsValidCell lv)
  have 2: "GetActionCostacrossAddLevels s SX SY th a
       = Some (if ?v1 \<and> ?v2 then 0 else INFINITECOST (cfg s))"
    using GetActionCostacrossAddLevels_no_levels [OF assms, of SX SY th a] by simp
  have 3: "GetActionCost base s SX SY th a
           = Some (max (base SX SY th a) (if ?v1 \<and> ?v2 then 0 else INFINITECOST (cfg s)))"
    by (simp add: GetActionCost_def 2)
  have 4: "?v1 \<and> ?v2 \<and> 0 \<le> base SX SY th a
            \<longrightarrow> GetActionCost base s SX SY th a = Some (base SX SY th a)"
    by (simp add: 3)
  have 5: "\<not> (?v1 \<and> ?v2) \<and> base SX SY th a = INFINITECOST (cfg s)
            \<longrightarrow> GetActionCost base s SX SY th a = Some (base SX SY th a)"
    by (simp add: 3)
  from 1 2 3 4 5 show ?thesis by blast
qed

theorem GetActionCost_no_levels_witness:
  "wf_env (EnvironmentNAVXYTHETAMLEVLAT cfg0)
 \<and> numofadditionalzlevs (EnvironmentNAVXYTHETAMLEVLAT cfg0) = 0
 \<and> GetActionCostacrossAddLevels (EnvironmentNAVXYTHETAMLEVLAT cfg0) 0 0 0 act0 = Some 0
 \<and> GetActionCost (\<lambda>x y th a. 10) (EnvironmentNAVXYTHETAMLEVLAT cfg0) 0 0 0 act0 = Some 10"
proof -
  have v: "IsValidCell (EnvironmentNAVXYTHETAMLEVLAT cfg0) 0 0 = Some True"
    "IsValidCell (EnvironmentNAVXYTHETAMLEVLAT cfg0) (0 + dX act0) (0 + dY act0) = Some True"
    by (simp_all add: IsValidCell_def base_IsValidCell_def new_cfg0_simps cfg0_simps act_simps
          in_bounds_def Grid2D_at_def at_ix_def)
  from GetActionCost_no_levels [OF wf_new_cfg0 new_cfg0_simps(2), of 0 0 act0 0 "\<lambda>x y th a. 10"]
    v wf_new_cfg0 show ?thesis
    by (auto simp: new_cfg0_simps)
qed

text \<open>Claim C6 as stated fails: without additional levels, from the cell (1, 0) the action
  of the small environment leads to (2, 0) outside the grid, and the cost over the
  additional levels is \<open>INFINITECOST\<close>, not 0.\<close>

theorem GetActionCost_no_levels_counterexample:
  "numofadditionalzlevs (EnvironmentNAVXYTHETAMLEVLAT cfg0) = 0
 \<and> GetActionCostacrossAddLevels (EnvironmentNAVXYTHETAMLEVLAT cfg0) 1 0 0 act0 = Some 1000000000
 \<and> GetActionCostacrossAddLevels (EnvironmentNAVXYTHETAMLEVLAT cfg0) 1 0 0 act0 \<noteq> Some 0"
proof -
  have "GetActionCostacrossAddLevels (EnvironmentNAVXYTHETAMLEVLAT cfg0) 1 0 0 act0
      = Some 1000000000"
    by (simp add: GetActionCostacrossAddLevels_def IsValidCell_def base_IsValidCell_def
          new_cfg0_simps cfg0_simps act_simps in_bounds_def Grid2D_at_def at_ix_def)
  then show ?thesis by (simp add: new_cfg0_simps)
qed

text \<open>Claim C2. Let the polygon of a level have more than one vertex, let the maximum of
  the level after the scan of the intermediate cells be at or above
  \<open>cost_possibly_circumscribed_thresh\<close>, and let one of the swept cells stored for the
  source heading, the action and the level be invalid on the level when translated by
  the source cell. Then the cost over the additional levels is \<open>INFINITECOST\<close>, whatever
  the overall maximum \<open>m\<close> of the scan is, and so is the cost of the action when the
  base environment returns no more than \<open>INFINITECOST\<close>. (In the witness the scan ends
  with the maximum 130, below \<open>obsthresh\<close>.)\<close>

theorem footprint_check_blocks:
  assumes "wf_env s" "wf_action s a" "starttheta a = SourceTheta"
    and "0 \<le> lev" "lev < numofadditionalzlevs s"
    and "AddLevelFootprintPolygonV s = Some polys" "length (polys ! nat lev) > 1"
    and "interm_cells s SX SY (interm3DcellsV a) 0
           (0, replicate (nat (numofadditionalzlevs s)) 0) = Some (i, m, each)"
    and "cost_possibly_circumscribed_thresh (cfg s) \<le> uint (each ! nat lev)"
    and "intersectingcells_at s SourceTheta (aind a) lev = Some cells"
    and "cell \<in> set cells"
      "IsValidCell_lev s (fst cell + SX) (snd cell + SY) lev = Some False"
    and "base SX SY SourceTheta a \<le> INFINITECOST (cfg s)"
  shows "GetActionCostacrossAddLevels s SX SY SourceTheta a = Some (INFINITECOST (cfg s))
       \<and> GetActionCost base s SX SY SourceTheta a = Some (INFINITECOST (cfg s))"
proof -
  from assms(4,5) have pos: "0 < numofadditionalzlevs s" by simp
  from assms(4,5) have mem: "lev \<in> set (levels s)" by (simp add: set_levels)
  have bl: "blocking_level s SX SY a each lev"
    unfolding blocking_level_def using assms(3,6,7,9-12) by blast
  from wf_GetActionCostacrossAddLevels [OF assms(1,2) pos, of SX SY SourceTheta]
  obtain i' m0 each' m' r where
    r: "interm_cells s SX SY (interm3DcellsV a) 0
           (0, replicate (nat (numofadditionalzlevs s)) 0) = Some (i', m0, each')"
      "(\<exists>lev\<in>set (levels s). blocking_level s SX SY a each' lev) \<longrightarrow> obsthresh (cfg s) \<le> m'"
      "GetActionCostacrossAddLevels s SX SY SourceTheta a = Some r"
      "obsthresh (cfg s) \<le> m' \<longrightarrow> r = INFINITECOST (cfg s)"
    by blast
  from r(1) assms(8) have "each' = each" by simp
  with r(2) bl mem have "obsthresh (cfg s) \<le> m'" by blast
  with r(3,4) have 1: "GetActionCostacrossAddLevels s SX SY SourceTheta a
                        = Some (INFINITECOST (cfg s))" by simp
  with assms(13) show ?thesis by (simp add: GetActionCost_def)
qed

theorem footprint_check_blocks_witness:
  "wf_env env2 \<and> wf_action env2 act0
 \<and> interm_cells env2 0 0 (interm3DcellsV act0) 0
      (0, replicate (nat (numofadditionalzlevs env2)) 0) = Some (2, 130, [130, 7])
 \<and> (130::u8) < obsthresh (cfg env2)
 \<and> intersectingcells_at env2 0 (aind act0) 0 = Some [(1, 1)]
 \<and> IsValidCell_lev env2 (1 + 0) (1 + 0) 0 = Some False
 \<and> GetActionCostacrossAddLevels env2 0 0 0 act0 = Some (INFINITECOST (cfg env2))
 \<and> GetActionCost (\<lambda>x y th a. 10) env2 0 0 0 act0 = Some (INFINITECOST (cfg env2))"
proof -
  have h: "starttheta act0 = 0" "(0::int) \<le> 0" "0 < numofadditionalzlevs env2"
    "AddLevelFootprintPolygonV env2 = Some polys0" "length (polys0 ! nat 0) > 1"
    by (simp_all add: eval1 polys0_def)
  have sc: "interm_cells env2 0 0 (interm3DcellsV act0) 0
      (0, replicate (nat (numofadditionalzlevs env2)) 0) = Some (2, 130, [130, 7])"
    by (simp add: eval1 replicate_nat2)
  have c: "cost_possibly_circumscribed_thresh (cfg env2) \<le> uint ([130, 7 :: u8] ! nat 0)"
    by (simp add: eval1)
  have t: "intersectingcells_at env2 0 (aind act0) 0 = Some [(1, 1)]"
    by (simp add: intersectingcells_at_def eval1)
  have v: "IsValidCell_lev env2 (fst (1, 1) + 0) (snd (1, 1) + 0) 0 = Some False"
    by (simp add: IsValidCell_lev_def eval1)
  have b: "(\<lambda>x y th a. 10) (0::int) (0::int) (0::int) act0 \<le> INFINITECOST (cfg env2)"
    by (simp add: eval1)
  have "(130::u8) < obsthresh (cfg env2)" by (simp add: eval1)
  with footprint_check_blocks [OF wf_env2 wf_action0(3) h sc c t _ v b] wf_env2 wf_action0(3)
    sc t v
  show ?thesis by simp
qed

subsection \<open>The cost of an action over the additional levels\<close>

lemma dest_inscribed_levels_eq:
  assumes "wf_env s" "in_bounds s x y" "set ls \<subseteq> set (levels s)"
  shows "dest_inscribed_levels s x y ls
       = Some (\<exists>l\<in>set ls. cost_inscribed_thresh (cfg s) \<le> levelCost s l x y)"
  using assms(3)
proof (induction ls)
  case Nil
  then show ?case by simp
next
  case (Cons l ls)
  then have "0 \<le> l" "l < numofadditionalzlevs s" by (simp_all add: set_levels)
  from wf_AddLevelGrid2D_at [OF assms(1) this assms(2)] Cons show ?case by auto
qed

lemma footprint_cells_eq:
  assumes "wf_env s" "0 \<le> lev" "lev < numofadditionalzlevs s"
  shows "footprint_cells s SX SY lev cells m
       = Some (if \<exists>cell\<in>set cells.
                    IsValidCell_lev s (fst cell + SX) (snd cell + SY) lev = Some False
               then obsthresh (cfg s) else m)"
  by (induction cells) (simp_all add: wf_IsValidCell_lev [OF assms])

lemma footprint_levels_eq:
  assumes "wf_env s" "wf_levels s" "wf_action s a" "length each = nat (numofadditionalzlevs s)"
    "set ls \<subseteq> set (levels s)"
  shows "footprint_levels s SX SY a each ls m
       = Some (if m < obsthresh (cfg s) \<and> (\<exists>lev\<in>set ls. blocking_level s SX SY a each lev)
               then obsthresh (cfg s) else m)"
  using assms(5)
proof (induction ls arbitrary: m)
  case Nil
  then show ?case by simp
next
  case (Cons l ls)
  from Cons.prems have l: "0 \<le> l" "l < numofadditionalzlevs s" and sub: "set ls \<subseteq> set (levels s)"
    by (simp_all add: set_levels)
  show ?case
  proof (cases "m < obsthresh (cfg s)")
    case False
    then show ?thesis by simp
  next
    case True
    from assms(2) obtain polys where polys: "AddLevelFootprintPolygonV s = Some polys"
      "int (length polys) = numofadditionalzlevs s"
      by (auto simp: wf_levels_def split: option.splits)
    from l polys(2) have pl: "at_ix polys l = Some (polys ! nat l)" by (simp add: at_ix_def)
    from l assms(4) have el: "at_ix each l = Some (each ! nat l)" by (simp add: at_ix_def)
    from wf_intersectingcells_at [OF assms(2,3) l] obtain cells where
      cells: "intersectingcells_at s (starttheta a) (aind a) l = Some cells" by blast
    let ?inv = "\<exists>cell\<in>set cells. IsValidCell_lev s (fst cell + SX) (snd cell + SY) l = Some False"
    let ?chk = "length (polys ! nat l) > 1
                  \<and> cost_possibly_circumscribed_thresh (cfg s) \<le> uint (each ! nat l)"
    have bl: "blocking_level s SX SY a each l \<longleftrightarrow> ?chk \<and> ?inv"
      by (auto simp: blocking_level_def polys(1) cells)
    note fc = footprint_cells_eq [OF assms(1) l, of SX SY cells m]
    show ?thesis
    proof (cases ?chk)
      case False
      with True polys(1) pl el have eq:
        "footprint_levels s SX SY a each (l # ls) m = footprint_levels s SX SY a each ls m"
        by auto
      from False bl have nb: "\<not> blocking_level s SX SY a each l" by blast
      show ?thesis unfolding eq Cons.IH [OF sub] using nb by simp
    next
      case chk: True
      show ?thesis
      proof (cases ?inv)
        case True
        with chk \<open>m < obsthresh (cfg s)\<close> polys(1) pl el cells fc have eq:
          "footprint_levels s SX SY a each (l # ls) m
           = footprint_levels s SX SY a each ls (obsthresh (cfg s))"
          by simp
        from True chk bl have b: "blocking_level s SX SY a each l" by blast
        show ?thesis unfolding eq Cons.IH [OF sub] using b \<open>m < obsthresh (cfg s)\<close> by simp
      next
        case False
        with chk \<open>m < obsthresh (cfg s)\<close> polys(1) pl el cells fc have eq:
          "footprint_levels s SX SY a each (l # ls) m = footprint_levels s SX SY a each ls m"
          by simp
        from False bl have nb: "\<not> blocking_level s SX SY a each l" by blast
        show ?thesis unfolding eq Cons.IH [OF sub] using nb by simp
      qed
    qed
  qed
qed

lemma blocking_level_footprint_blocks:
  "each ! nat lev = maxObservedAt s SX SY lev (interm3DcellsV a) \<Longrightarrow>
   blocking_level s SX SY a each lev = footprint_blocks s SX SY a lev"
  by (auto simp: blocking_level_def footprint_blocks_def list_ex_iff split: option.splits)

lemma wf_interm_cells_exact:
  assumes "wf_env s"
  shows "\<exists>i m each.
       interm_cells s SX SY cells 0 (0, replicate (nat (numofadditionalzlevs s)) 0)
         = Some (i, m, each)
     \<and> (i < length cells \<longleftrightarrow> (\<exists>j<length cells. scan_stops s SX SY cells j))
     \<and> (i < length cells \<longrightarrow> m = obsthresh (cfg s))
     \<and> (\<not> i < length cells \<longrightarrow> m = maxObservedCost s SX SY cells
           \<and> (\<forall>l\<in>set (levels s). each ! nat l = maxObservedAt s SX SY l cells))
     \<and> length each = nat (numofadditionalzlevs s)"
proof -
  let ?e = "replicate (nat (numofadditionalzlevs s)) (0::u8)"
  have 1: "length ?e = nat (numofadditionalzlevs s)" by simp
  have 2: "(0::u8) = maxObservedCost s SX SY []"
    by (simp add: maxObservedCost_def observedCosts_def)
  have 3: "\<forall>l\<in>set (levels s). ?e ! nat l = maxObservedAt s SX SY l []"
    by (simp add: maxObservedAt_def set_levels)
  have 4: "\<forall>j<length ([]::EnvNAVXYTHETALAT3Dcell_t list). \<not> scan_stops s SX SY ([] @ cells) j"
    by simp
  from interm_cells_inv [OF assms 1 2 3 4] obtain i m each where
    r: "interm_cells s SX SY cells 0 (0, ?e) = Some (i, m, each)"
      "i \<le> length cells" "\<forall>j<i. \<not> scan_stops s SX SY cells j"
      "i < length cells \<longrightarrow> scan_stops s SX SY cells i \<and> m = obsthresh (cfg s)"
      "i = length cells \<longrightarrow> m = maxObservedCost s SX SY cells"
      "length each = nat (numofadditionalzlevs s)"
      "\<forall>l\<in>set (levels s). each ! nat l
           = maxObservedAt s SX SY l (take (cells_read s SX SY cells i) cells)"
    by auto
  have iff: "i < length cells \<longleftrightarrow> (\<exists>j<length cells. scan_stops s SX SY cells j)"
  proof
    assume "i < length cells"
    with r(4) show "\<exists>j<length cells. scan_stops s SX SY cells j" by blast
  next
    assume "\<exists>j<length cells. scan_stops s SX SY cells j"
    then obtain j where j: "j < length cells" "scan_stops s SX SY cells j" by blast
    with r(3) have "\<not> j < i" by blast
    with j(1) show "i < length cells" by simp
  qed
  have full: "m = maxObservedCost s SX SY cells
           \<and> (\<forall>l\<in>set (levels s). each ! nat l = maxObservedAt s SX SY l cells)"
    if "\<not> i < length cells"
  proof -
    from that r(2) have i: "i = length cells" by simp
    then have "cells_read s SX SY cells i = length cells" by (simp add: cells_read_def)
    with r(7) r(5) i show ?thesis by simp
  qed
  from r(1,4,6) iff full show ?thesis by blast
qed

lemma to_int32_le: "0 \<le> z \<Longrightarrow> to_int32 z \<le> z"
proof -
  assume "0 \<le> z"
  then have "(z + 2 ^ 31) mod 2 ^ 32 \<le> z + 2 ^ 31" by (intro zmod_le_nonneg_dividend) simp
  then show ?thesis by (simp add: to_int32_def)
qed


lemma GetActionCostacrossAddLevels_eq:
  assumes "wf_env s" "wf_action s a" "0 < numofadditionalzlevs s"
  shows "GetActionCostacrossAddLevels s SX SY th a
       = Some (if action_blocked s SX SY a then INFINITECOST (cfg s)
               else to_int32 (cost a * (uint (maxObservedCost s SX SY (interm3DcellsV a)) + 1)))"
proof -
  let ?cells = "interm3DcellsV a"
  let ?M = "maxObservedCost s SX SY ?cells"
  from assms have wl: "wf_levels s" by (auto simp: wf_env_def)
  from assms(3) have n0: "numofadditionalzlevs s \<noteq> 0" by simp
  define V1 where "V1 = (in_bounds s SX SY \<and> baseCost s SX SY < obsthresh (cfg s)
           \<and> (\<forall>l\<in>set (levels s). levelCost s l SX SY < obsthresh (cfg s)))"
  define V2 where "V2 = (in_bounds s (SX + dX a) (SY + dY a)
           \<and> baseCost s (SX + dX a) (SY + dY a) < obsthresh (cfg s)
           \<and> (\<forall>l\<in>set (levels s). levelCost s l (SX + dX a) (SY + dY a) < obsthresh (cfg s)))"
  define ins where "ins = (\<exists>l\<in>set (levels s). cost_inscribed_thresh (cfg s)
               \<le> levelCost s l (SX + dX a) (SY + dY a))"
  define stops where "stops = (\<exists>j<length ?cells. scan_stops s SX SY ?cells j)"
  define fb where "fb = (\<exists>lev\<in>set (levels s). footprint_blocks s SX SY a lev)"
  have v1: "IsValidCell s SX SY = Some V1" unfolding V1_def by (rule wf_IsValidCell [OF assms(1)])
  have v2: "IsValidCell s (SX + dX a) (SY + dY a) = Some V2"
    unfolding V2_def by (rule wf_IsValidCell [OF assms(1)])
  have blk: "action_blocked s SX SY a \<longleftrightarrow> \<not> V1 \<or> \<not> V2 \<or> ins \<or> stops \<or> obsthresh (cfg s) \<le> ?M \<or> fb"
    using n0 by (auto simp: action_blocked_def v1 v2 ins_def stops_def fb_def list_ex_iff)
  show ?thesis
  proof (cases "V1 \<and> V2")
    case False
    then show ?thesis by (auto simp: GetActionCostacrossAddLevels_def v1 v2 blk)
  next
    case True
    then have ib: "in_bounds s (SX + dX a) (SY + dY a)" by (simp add: V2_def)
    have di: "dest_inscribed_levels s (SX + dX a) (SY + dY a) (levels s) = Some ins"
      unfolding ins_def by (rule dest_inscribed_levels_eq [OF assms(1) ib subset_refl])
    show ?thesis
    proof (cases ins)
      case True
      with \<open>V1 \<and> V2\<close> di n0 show ?thesis
        by (simp add: GetActionCostacrossAddLevels_def v1 v2 blk)
    next
      case False
      from wf_interm_cells_exact [OF assms(1), of SX SY ?cells] obtain i m each where
        sc: "interm_cells s SX SY ?cells 0 (0, replicate (nat (numofadditionalzlevs s)) 0)
               = Some (i, m, each)"
          "i < length ?cells \<longleftrightarrow> stops"
          "i < length ?cells \<longrightarrow> m = obsthresh (cfg s)"
          "\<not> i < length ?cells \<longrightarrow> m = ?M
             \<and> (\<forall>l\<in>set (levels s). each ! nat l = maxObservedAt s SX SY l ?cells)"
          "length each = nat (numofadditionalzlevs s)"
        unfolding stops_def by blast
      define m' where "m' = (if m < obsthresh (cfg s)
                                \<and> (\<exists>lev\<in>set (levels s). blocking_level s SX SY a each lev)
                             then obsthresh (cfg s) else m)"
      have fp: "footprint_levels s SX SY a each (levels s) m = Some m'"
        unfolding m'_def
        by (rule footprint_levels_eq [OF assms(1) wl assms(2) sc(5) subset_refl])
      have G: "GetActionCostacrossAddLevels s SX SY th a
             = Some (if obsthresh (cfg s) \<le> m' then INFINITECOST (cfg s)
                     else to_int32 (cost a * (uint m' + 1)))"
        using \<open>V1 \<and> V2\<close> di False n0 assms(3) sc(1) fp
        by (simp add: GetActionCostacrossAddLevels_def v1 v2 new_array_def)
      show ?thesis
      proof (cases stops)
        case True
        with sc(2,3) have "m = obsthresh (cfg s)" by simp
        then have "m' = obsthresh (cfg s)" by (simp add: m'_def)
        with True show ?thesis by (simp add: G blk)
      next
        case ns: False
        with sc(2,4) have M: "m = ?M"
          and E: "\<forall>l\<in>set (levels s). each ! nat l = maxObservedAt s SX SY l ?cells"
          by simp_all
        have "blocking_level s SX SY a each lev = footprint_blocks s SX SY a lev"
          if "lev \<in> set (levels s)" for lev
          using that E by (intro blocking_level_footprint_blocks) simp
        then have fb': "(\<exists>lev\<in>set (levels s). blocking_level s SX SY a each lev) = fb"
          by (simp add: fb_def)
        have m'': "m' = (if ?M < obsthresh (cfg s) \<and> fb then obsthresh (cfg s) else ?M)"
          by (simp add: m'_def fb' M)
        show ?thesis
        proof (cases "obsthresh (cfg s) \<le> ?M")
          case True
          then have "m' = ?M" by (auto simp: m'')
          with True show ?thesis by (simp add: G blk)
        next
          case lt: False
          show ?thesis
          proof (cases fb)
            case True
            with lt have "m' = obsthresh (cfg s)" by (auto simp: m'')
            with True show ?thesis by (simp add: G blk)
          next
            case False
            then have "m' = ?M" by (simp add: m'')
            with False lt ns \<open>\<not> ins\<close> \<open>V1 \<and> V2\<close> show ?thesis by (simp add: G blk)
          qed
        qed
      qed
    qed
  qed
qed


lemma observedCosts_no_levels: "levels s = [] \<Longrightarrow> observedCosts s SX SY cs = []"
  by (simp add: observedCosts_def cell_costs_def)

lemma GetActionCost_eq:
  assumes "wf_env s" "wf_action s a"
    "0 < numofadditionalzlevs s \<or> cost a \<le> base SX SY th a"
  shows "GetActionCost base s SX SY th a
       = Some (max (base SX SY th a)
           (if action_blocked s SX SY a then INFINITECOST (cfg s)
            else to_int32 (cost a * (uint (maxObservedCost s SX SY (interm3DcellsV a)) + 1))))"
proof (cases "0 < numofadditionalzlevs s")
  case True
  from GetActionCostacrossAddLevels_eq [OF assms(1,2) True, of SX SY th]
  show ?thesis by (simp add: GetActionCost_def)
next
  case False
  with assms(1) have z: "numofadditionalzlevs s = 0" by (simp add: wf_env_def)
  then have lv: "levels s = []" by (simp add: levels_def)
  then have M: "maxObservedCost s SX SY (interm3DcellsV a) = 0"
    by (simp add: maxObservedCost_def observedCosts_no_levels)
  from assms(2) have c0: "0 \<le> cost a" by (simp add: wf_action_def)
  from False assms(3) have cb: "cost a \<le> base SX SY th a" by simp
  from to_int32_le [OF c0] cb c0
  have mx: "max (base SX SY th a) (to_int32 (cost a)) = base SX SY th a"
    "max (base SX SY th a) 0 = base SX SY th a" by simp_all
  have blk: "action_blocked s SX SY a \<longleftrightarrow>
      \<not> (in_bounds s SX SY \<and> baseCost s SX SY < obsthresh (cfg s)
          \<and> in_bounds s (SX + dX a) (SY + dY a)
          \<and> baseCost s (SX + dX a) (SY + dY a) < obsthresh (cfg s))"
    using assms(1) by (auto simp: action_blocked_def z wf_IsValidCell lv)
  from GetActionCostacrossAddLevels_no_levels [OF assms(1) z, of SX SY th a]
  show ?thesis by (simp add: GetActionCost_def blk M mx)
qed

lemma env34_simps:
  "cfg env3 = cfg0" "numofadditionalzlevs env3 = 2"
  "AddLevelFootprintPolygonV env3 = Some [[(0, 0), (1, 0), (1, 1)], [(0, 0)]]"
  "AdditionalInfoinActionsV env3 = Some [[\<lparr> addinfo_dX = 1, addinfo_dY = 0,
               addinfo_starttheta = 0, addinfo_endtheta = 0,
               intersectingcellsV = [[(1, 0)], []] \<rparr>]]"
  "AddLevelGrid2D env3 = Some [[[0, 0], [0, 0]], [[0, 253], [0, 0]]]"
  "cfg env4 = cfg0" "numofadditionalzlevs env4 = 2"
  "AddLevelFootprintPolygonV env4 = Some [[(0, 0), (1, 0), (1, 1)], [(0, 0)]]"
  "AdditionalInfoinActionsV env4 = Some [[\<lparr> addinfo_dX = 1, addinfo_dY = 0,
               addinfo_starttheta = 0, addinfo_endtheta = 0,
               intersectingcellsV = [[(1, 1)], []] \<rparr>]]"
  "AddLevelGrid2D env4 = Some [[[0, 0], [0, 200]], [[0, 0], [0, 0]]]"
  by (simp_all add: env3_def env4_def env0_simps env2_simps)

lemma levels_env34: "levels env3 = [0, 1]" "levels env4 = [0, 1]"
  by (simp_all add: levels_def env34_simps upt_conv_Cons)

lemma act5_simps:
  "aind act5 = 0" "starttheta act5 = 0" "dX act5 = 1" "dY act5 = 0" "cost act5 = 300000000"
  "interm3DcellsV act5 = [(0, 0, 0), (1, 0, 0)]"
  by (simp_all add: act5_def act0_def)

lemmas eval3 = env34_simps levels_env34 act5_simps act_simps cfg0_simps in_bounds_def
  AddLevelGrid2D_at_def Grid2D_at_def at3_def at_ix_def put_ix_def

lemma envf_simps:
  "cfg (env0\<lparr>AddLevelGrid2D := Some zeros0\<rparr>) = cfg0"
  "numofadditionalzlevs (env0\<lparr>AddLevelGrid2D := Some zeros0\<rparr>) = 2"
  "AddLevelFootprintPolygonV (env0\<lparr>AddLevelGrid2D := Some zeros0\<rparr>)
     = Some [[(0, 0), (1, 0), (1, 1)], [(0, 0)]]"
  "AdditionalInfoinActionsV (env0\<lparr>AddLevelGrid2D := Some zeros0\<rparr>)
     = Some [[\<lparr> addinfo_dX = 1, addinfo_dY = 0,
               addinfo_starttheta = 0, addinfo_endtheta = 0,
               intersectingcellsV = [[(1, 0)], []] \<rparr>]]"
  "AddLevelGrid2D (env0\<lparr>AddLevelGrid2D := Some zeros0\<rparr>)
     = Some [[[0, 0], [0, 0]], [[0, 0], [0, 0]]]"
  "levels (env0\<lparr>AddLevelGrid2D := Some zeros0\<rparr>) = [0, 1]"
  by (simp_all add: env0_simps zeros0_def levels_def upt_conv_Cons)

lemma wf_envf: "wf_env (env0\<lparr>AddLevelGrid2D := Some zeros0\<rparr>)"
  "wf_action (env0\<lparr>AddLevelGrid2D := Some zeros0\<rparr>) act0"
  by (simp_all add: wf_env_def wf_levels_def wf_grid2D_def wf_action_def envf_simps cfg0_simps
        act_simps)

lemmas blocked0 = action_blocked_def footprint_blocks_def scan_stops_def
  intersectingcells_at_def IsValidCell_lev_def maxObservedAt_def cost1 upt_conv_Cons

text \<open>Claim C1, as amended. On a well-formed object and for a well-formed action: with
  additional levels, the cost over the additional levels is \<open>INFINITECOST\<close> when the
  action is blocked, and otherwise the cost of the action times one more than the
  maximum of the costs observed on the additional levels at the intermediate cells of
  the action, the product formed in 32 bits. \<open>GetActionCost\<close> returns the larger of the
  cost of the base environment and this cost; so it does without additional levels
  when the base environment returns at least the cost of the action. For an action
  that is not blocked and a product below \<open>2 ^ 31\<close> this is the larger of the cost of
  the base environment and the product. In particular, when the base environment
  returns the cost \<open>C\<close> of the action and the action is not blocked: if all observed
  costs are 0 the result is \<open>C\<close>; and if \<open>k\<close> is the largest observed cost, then
  \<open>k\<close> is below \<open>cost_inscribed_thresh\<close> and below \<open>obsthresh\<close> and the result is
  \<open>C * (k + 1)\<close>. Costs of swept cells that are no intermediate cells do not enter
  the result.\<close>

theorem GetActionCost_scaling:
  assumes "wf_env s" "wf_action s a"
  shows "(0 < numofadditionalzlevs s \<longrightarrow>
          GetActionCostacrossAddLevels s SX SY th a
          = Some (if action_blocked s SX SY a then INFINITECOST (cfg s)
                  else to_int32 (cost a
                         * (uint (maxObservedCost s SX SY (interm3DcellsV a)) + 1))))
       \<and> (0 < numofadditionalzlevs s \<or> cost a \<le> base SX SY th a \<longrightarrow>
          GetActionCost base s SX SY th a
          = Some (max (base SX SY th a)
              (if action_blocked s SX SY a then INFINITECOST (cfg s)
               else to_int32 (cost a
                      * (uint (maxObservedCost s SX SY (interm3DcellsV a)) + 1)))))
       \<and> (\<not> action_blocked s SX SY a
            \<and> (0 < numofadditionalzlevs s \<or> cost a \<le> base SX SY th a)
            \<and> cost a * (uint (maxObservedCost s SX SY (interm3DcellsV a)) + 1) < 2 ^ 31 \<longrightarrow>
          GetActionCost base s SX SY th a
          = Some (max (base SX SY th a)
                      (cost a * (uint (maxObservedCost s SX SY (interm3DcellsV a)) + 1))))
       \<and> (\<not> action_blocked s SX SY a
            \<and> (\<forall>c\<in>set (observedCosts s SX SY (interm3DcellsV a)). c = 0)
            \<and> base SX SY th a = cost a \<and> cost a < 2 ^ 31 \<longrightarrow>
          GetActionCost base s SX SY th a = Some (cost a))
       \<and> (\<not> action_blocked s SX SY a
            \<and> k \<in> set (observedCosts s SX SY (interm3DcellsV a))
            \<and> (\<forall>c\<in>set (observedCosts s SX SY (interm3DcellsV a)). c \<le> k)
            \<and> base SX SY th a = cost a \<and> cost a * (uint k + 1) < 2 ^ 31 \<longrightarrow>
          k < cost_inscribed_thresh (cfg s) \<and> k < obsthresh (cfg s)
          \<and> GetActionCost base s SX SY th a = Some (cost a * (uint k + 1)))"
proof -
  let ?cells = "interm3DcellsV a"
  let ?M = "maxObservedCost s SX SY ?cells"
  let ?P = "cost a * (uint ?M + 1)"
  from assms(2) have c0: "0 \<le> cost a" by (simp add: wf_action_def)
  then have p0: "0 \<le> ?P" by simp
  have 1: "GetActionCostacrossAddLevels s SX SY th a
          = Some (if action_blocked s SX SY a then INFINITECOST (cfg s) else to_int32 ?P)"
    if "0 < numofadditionalzlevs s"
    by (rule GetActionCostacrossAddLevels_eq [OF assms that])
  have 2: "GetActionCost base s SX SY th a
          = Some (max (base SX SY th a)
              (if action_blocked s SX SY a then INFINITECOST (cfg s) else to_int32 ?P))"
    if "0 < numofadditionalzlevs s \<or> cost a \<le> base SX SY th a"
    using that by (intro GetActionCost_eq [where base = base] assms)
  have 3: "GetActionCost base s SX SY th a = Some (max (base SX SY th a) ?P)"
    if "\<not> action_blocked s SX SY a"
      "0 < numofadditionalzlevs s \<or> cost a \<le> base SX SY th a" "?P < 2 ^ 31"
    using 2 [OF that(2)] that(1) to_int32_id [OF p0 that(3)] by simp
  have 4: "GetActionCost base s SX SY th a = Some (cost a)"
    if "\<not> action_blocked s SX SY a"
      "\<forall>c\<in>set (observedCosts s SX SY ?cells). c = 0"
      "base SX SY th a = cost a" "cost a < 2 ^ 31"
  proof -
    from that(2) have M: "?M = 0" by (simp add: maxObservedCost_def fold_max_zero)
    from that(3) have "0 < numofadditionalzlevs s \<or> cost a \<le> base SX SY th a" by simp
    from 3 [OF that(1) this] that(3,4) M show ?thesis by simp
  qed
  have 5: "k < cost_inscribed_thresh (cfg s) \<and> k < obsthresh (cfg s)
          \<and> GetActionCost base s SX SY th a = Some (cost a * (uint k + 1))"
    if "\<not> action_blocked s SX SY a"
      "k \<in> set (observedCosts s SX SY ?cells)"
      "\<forall>c\<in>set (observedCosts s SX SY ?cells). c \<le> k"
      "base SX SY th a = cost a" "cost a * (uint k + 1) < 2 ^ 31"
  proof -
    from that(2,3) have M: "?M = k" by (simp add: maxObservedCost_def fold_max_eq)
    from that(2) have "levels s \<noteq> []" using observedCosts_no_levels [of s SX SY ?cells] by auto
    then have n0: "numofadditionalzlevs s \<noteq> 0" by (auto simp: levels_def)
    from that(2) have ne: "?cells \<noteq> []" by (auto simp: observedCosts_def)
    then have j: "length ?cells - 1 < length ?cells" "Suc (length ?cells - 1) = length ?cells"
      by simp_all
    from that(1) n0 have ns: "\<not> scan_stops s SX SY ?cells (length ?cells - 1)"
      and no: "\<not> obsthresh (cfg s) \<le> ?M"
      using j(1) by (auto simp: action_blocked_def list_ex_iff)
    from ns have "\<not> cost_inscribed_thresh (cfg s) \<le> ?M"
      by (simp add: scan_stops_def j(2))
    with no M have lt: "k < cost_inscribed_thresh (cfg s)" "k < obsthresh (cfg s)"
      by (simp_all add: not_le)
    have "0 \<le> cost a * uint k" using c0 by simp
    then have ge: "cost a \<le> cost a * (uint k + 1)" by (simp add: algebra_simps)
    from that(4) have "0 < numofadditionalzlevs s \<or> cost a \<le> base SX SY th a" by simp
    from 3 [OF that(1) this] that(4,5) M ge
    have "GetActionCost base s SX SY th a = Some (cost a * (uint k + 1))" by simp
    with lt show ?thesis by simp
  qed
  from 1 2 3 4 5 show ?thesis by blast
qed

theorem GetActionCost_scaling_witness:
  "wf_env env0 \<and> wf_action env0 act0 \<and> 0 < numofadditionalzlevs env0
 \<and> \<not> action_blocked env0 0 0 act0
 \<and> observedCosts env0 0 0 (interm3DcellsV act0) = [3, 7, 0, 0]
 \<and> base_nominal 0 0 0 act0 = cost act0 \<and> cost act0 = 10
 \<and> GetActionCostacrossAddLevels env0 0 0 0 act0 = Some 80
 \<and> GetActionCost base_nominal env0 0 0 0 act0 = Some (10 * (7 + 1))
 \<and> wf_env (env0\<lparr>AddLevelGrid2D := Some zeros0\<rparr>)
 \<and> \<not> action_blocked (env0\<lparr>AddLevelGrid2D := Some zeros0\<rparr>) 0 0 act0
 \<and> observedCosts (env0\<lparr>AddLevelGrid2D := Some zeros0\<rparr>) 0 0 (interm3DcellsV act0)
     = [0, 0, 0, 0]
 \<and> GetActionCost base_nominal (env0\<lparr>AddLevelGrid2D := Some zeros0\<rparr>) 0 0 0 act0 = Some 10"
proof -
  have v: "IsValidCell env0 0 0 = Some True" "IsValidCell env0 1 0 = Some True"
    by (simp_all add: IsValidCell_def base_IsValidCell_def eval0 act_simps)
  have nb: "\<not> action_blocked env0 0 0 act0"
    by (simp add: blocked0 v eval0 act_simps)
  have o: "observedCosts env0 0 0 (interm3DcellsV act0) = [3, 7, 0, 0]"
    by (simp add: cost1 eval0 act_simps)
  have m: "maxObservedCost env0 0 0 (interm3DcellsV act0) = 7"
    by (simp add: maxObservedCost_def o)
  have h: "0 < numofadditionalzlevs env0" "base_nominal 0 0 0 act0 = cost act0" "cost act0 = 10"
    "cost act0 * (uint (7::u8) + 1) < 2 ^ 31" "cost act0 < 2 ^ 31"
    by (simp_all add: base_nominal_def eval0 act_simps)
  note T = GetActionCost_scaling [OF wf_env0 wf_action0(1), of 0 0 0 base_nominal 7]
  have 1: "GetActionCostacrossAddLevels env0 0 0 0 act0 = Some 80"
    using T [THEN conjunct1] h(1) nb by (simp add: m [unfolded act_simps] act_simps to_int32_def)
  have 5: "GetActionCost base_nominal env0 0 0 0 act0 = Some (cost act0 * (uint (7::u8) + 1))"
    using T [THEN conjunct2, THEN conjunct2, THEN conjunct2, THEN conjunct2] nb h
    by (simp add: o)
  let ?f = "env0\<lparr>AddLevelGrid2D := Some zeros0\<rparr>"
  have vf: "IsValidCell ?f 0 0 = Some True" "IsValidCell ?f 1 0 = Some True"
    by (simp_all add: IsValidCell_def base_IsValidCell_def envf_simps eval0 act_simps)
  have nbf: "\<not> action_blocked ?f 0 0 act0"
    by (simp add: blocked0 vf envf_simps eval0 act_simps)
  have of: "observedCosts ?f 0 0 (interm3DcellsV act0) = [0, 0, 0, 0]"
    by (simp add: cost1 envf_simps eval0 act_simps)
  note F = GetActionCost_scaling [OF wf_envf, of 0 0 0 base_nominal 0]
  have 4: "GetActionCost base_nominal ?f 0 0 0 act0 = Some (cost act0)"
    using F [THEN conjunct2, THEN conjunct2, THEN conjunct2, THEN conjunct1] nbf h
    by (simp add: of)
  from wf_env0 wf_action0(1) wf_envf(1) h nb o 1 5 nbf of 4 show ?thesis
    by simp
qed

text \<open>Claim C1 as stated fails, with a base environment that returns the cost of the
  action. A single cell of cost 253, below \<open>obsthresh\<close> 254, on the path of an action of
  cost 10 gives \<open>INFINITECOST\<close>, not 2540, since 253 is at \<open>cost_inscribed_thresh\<close>. A
  single cell of cost 200 that the footprint sweeps but that is no intermediate cell
  leaves the cost at 10, not 2010. And for an action of cost 300000000 with the
  largest observed cost 7 the product 2400000000 does not fit 32 bits, and the result
  is 300000000.\<close>

theorem GetActionCost_scaling_counterexample:
  "observedCosts env3 0 0 (interm3DcellsV act1) = [0, 0, 0, 253, 0, 0]
 \<and> (253::u8) < obsthresh (cfg env3)
 \<and> base_nominal 0 0 0 act1 = 10 \<and> cost act1 * (uint (253::u8) + 1) = 2540
 \<and> GetActionCost base_nominal env3 0 0 0 act1 = Some 1000000000
 \<and> intersectingcells_at env4 (starttheta act0) (aind act0) 0 = Some [(1, 1)]
 \<and> levelCost env4 0 (1 + 0) (1 + 0) = 200
 \<and> base_nominal 0 0 0 act0 = 10 \<and> cost act0 * (uint (200::u8) + 1) = 2010
 \<and> observedCosts env4 0 0 (interm3DcellsV act0) = [0, 0, 0, 0]
 \<and> GetActionCost base_nominal env4 0 0 0 act0 = Some 10
 \<and> maxObservedCost env0 0 0 (interm3DcellsV act5) = 7
 \<and> base_nominal 0 0 0 act5 = 300000000 \<and> cost act5 * (uint (7::u8) + 1) = 2400000000
 \<and> GetActionCost base_nominal env0 0 0 0 act5 = Some 300000000"
proof -
  have o3: "observedCosts env3 0 0 (interm3DcellsV act1) = [0, 0, 0, 253, 0, 0]"
    by (simp add: cost1 eval3)
  have v3: "IsValidCell env3 0 0 = Some True" "IsValidCell env3 1 0 = Some True"
    by (simp_all add: IsValidCell_def base_IsValidCell_def eval3)
  have g3: "GetActionCost base_nominal env3 0 0 0 act1 = Some 1000000000"
    by (simp add: GetActionCost_def GetActionCostacrossAddLevels_def v3 new_array_def
          base_nominal_def eval3 replicate_nat2)
  have t4: "intersectingcells_at env4 (starttheta act0) (aind act0) 0 = Some [(1, 1)]"
    by (simp add: intersectingcells_at_def eval3)
  have l4: "levelCost env4 0 (1 + 0) (1 + 0) = 200"
    by (simp add: levelCost_def eval3)
  have o4: "observedCosts env4 0 0 (interm3DcellsV act0) = [0, 0, 0, 0]"
    by (simp add: cost1 eval3)
  have v4: "IsValidCell env4 0 0 = Some True" "IsValidCell env4 1 0 = Some True"
    by (simp_all add: IsValidCell_def base_IsValidCell_def eval3)
  have g4: "GetActionCost base_nominal env4 0 0 0 act0 = Some 10"
    by (simp add: GetActionCost_def GetActionCostacrossAddLevels_def v4 new_array_def
          intersectingcells_at_def to_int32_def base_nominal_def eval3 replicate_nat2)
  have m5: "maxObservedCost env0 0 0 (interm3DcellsV act5) = 7"
    by (simp add: cost1 eval0 act5_simps)
  have v0: "IsValidCell env0 0 0 = Some True" "IsValidCell env0 1 0 = Some True"
    by (simp_all add: IsValidCell_def base_IsValidCell_def eval0)
  have g5: "GetActionCost base_nominal env0 0 0 0 act5 = Some 300000000"
    by (simp add: GetActionCost_def GetActionCostacrossAddLevels_def v0 new_array_def
          intersectingcells_at_def to_int32_def base_nominal_def eval0 act5_simps replicate_nat2)
  have r: "(253::u8) < obsthresh (cfg env3)" "base_nominal 0 0 0 act1 = 10"
    "cost act1 * (uint (253::u8) + 1) = 2540" "base_nominal 0 0 0 act0 = 10"
    "cost act0 * (uint (200::u8) + 1) = 2010" "base_nominal 0 0 0 act5 = 300000000"
    "cost act5 * (uint (7::u8) + 1) = 2400000000"
    by (simp_all add: base_nominal_def eval3)
  from o3 g3 t4 l4 o4 g4 m5 g5 r show ?thesis by simp
qed

end
